theory Spec2Isabelle
  imports Complex_Main "HOL-Library.Word" "HOL-Library.Monad_Syntax"
begin

unbundle bit_operations_syntax

section \<open>Data model of \<^verbatim>\<open>src_c/draw.c\<close>\<close>

text \<open>
  The drawing module works on an \<^verbatim>\<open>SDL_Surface\<close>: a byte buffer \<^verbatim>\<open>pixels\<close> addressed
  with \<^verbatim>\<open>pitch\<close> and \<^verbatim>\<open>BytesPerPixel\<close>, a pixel format and a clip rectangle. The
  embedding keeps the buffer at byte level, because \<^verbatim>\<open>set_at\<close> computes byte addresses.

  Conventions of the embedding.
  \<^item> A C \<^verbatim>\<open>int\<close> has 32 bits: it is an integer from \<open>INT_MIN\<close> to \<open>INT_MAX\<close>
    (\<open>int_range\<close>). In the line rasters and in the polygon fill every \<^verbatim>\<open>int\<close> operation
    is two's complement, as in the build: \<open>wrap_int\<close> brings the mathematical result back
    into the range (\<open>c_add\<close>, \<open>c_sub\<close>, \<open>c_mul\<close>, \<open>c_neg\<close>, \<open>c_abs\<close>). The circle and
    ellipse rasters, the bounding box and the byte addresses are written over the
    mathematical integers; they agree with the code as long as no intermediate value
    leaves the range. C's \<^verbatim>\<open>/\<close> truncates towards zero (\<open>c_div\<close>).
  \<^item> \<^verbatim>\<open>Uint8\<close>, \<^verbatim>\<open>Uint16\<close>, \<^verbatim>\<open>Uint32\<close> are words; casts between them are \<open>ucast\<close>.
  \<^item> The SDL functions \<^verbatim>\<open>SDL_GetRGB\<close>, \<^verbatim>\<open>SDL_GetRGBA\<close> and \<^verbatim>\<open>SDL_MapRGBA\<close> are not part of
    this file; they depend on the format only and are taken as fields of the format.
  \<^item> The build-time constant \<^verbatim>\<open>SDL_BYTEORDER == SDL_LIL_ENDIAN\<close> is the field
    \<open>lil_endian\<close> of the surface.
  \<^item> A finite \<^verbatim>\<open>float\<close> is the rational number it stands for. Every \<^verbatim>\<open>float\<close> operation
    rounds its exact result to binary32 (\<open>f32_round\<close>: to nearest, ties to even) and has
    no value (\<open>None\<close>) when that result is not finite.
\<close>

type_synonym Uint8 = "8 word"
type_synonym Uint16 = "16 word"
type_synonym Uint32 = "32 word"

definition INT_MAX :: int where "INT_MAX = 2147483647"
definition INT_MIN :: int where "INT_MIN = - 2147483648"

definition int_range :: "int \<Rightarrow> bool" where
  "int_range v = (INT_MIN \<le> v \<and> v \<le> INT_MAX)"

definition wrap_int :: "int \<Rightarrow> int" where
  "wrap_int v = (v + 2147483648) mod 4294967296 - 2147483648"

definition c_add :: "int \<Rightarrow> int \<Rightarrow> int" where
  "c_add a b = wrap_int (a + b)"

definition c_sub :: "int \<Rightarrow> int \<Rightarrow> int" where
  "c_sub a b = wrap_int (a - b)"

definition c_mul :: "int \<Rightarrow> int \<Rightarrow> int" where
  "c_mul a b = wrap_int (a * b)"

definition c_neg :: "int \<Rightarrow> int" where
  "c_neg a = wrap_int (- a)"

text \<open>\<^verbatim>\<open>abs\<close>: in two's complement \<^verbatim>\<open>abs(INT_MIN)\<close> is \<^verbatim>\<open>INT_MIN\<close>.\<close>

definition c_abs :: "int \<Rightarrow> int" where
  "c_abs a = wrap_int \<bar>a\<bar>"

definition c_div :: "int \<Rightarrow> int \<Rightarrow> int" where
  "c_div a b = (if (a < 0) = (b < 0) then \<bar>a\<bar> div \<bar>b\<bar> else - (\<bar>a\<bar> div \<bar>b\<bar>))"

subsection \<open>Binary32 arithmetic\<close>

text \<open>
  A binary32 value has 24 significant bits and an exponent from -126 to 127. The values
  of magnitude below \<open>2 ^ (k - 125)\<close> and not below \<open>2 ^ (k - 126)\<close> (for \<open>k = 0\<close>: all
  values below \<open>2 ^ - 125\<close>, which takes in the subnormal ones) are the multiples of
  \<open>2 ^ (k - 149)\<close>; \<open>f32_round\<close> looks for the first such \<open>k\<close> and rounds to the nearest
  multiple, to the even one on a tie (\<open>f32_rne\<close>). A result of magnitude \<open>2 ^ 128\<close> or more
  is not finite.
\<close>

definition f32_rne :: "rat \<Rightarrow> int" where
  "f32_rne q =
     (let n = \<lfloor>q\<rfloor>; d = q - of_int n
      in if d < 1 / 2 then n else if 1 / 2 < d then n + 1 else if even n then n else n + 1)"

definition f32_round :: "rat \<Rightarrow> rat option" where
  "f32_round r =
     (case find (\<lambda>k. \<bar>r\<bar> * 2 ^ 125 < 2 ^ k) [0 ..< 254] of
        None \<Rightarrow> None
      | Some k \<Rightarrow>
          let q = 2 ^ k / 2 ^ 149; v = of_int (f32_rne (r / q)) * q
          in if \<bar>v\<bar> < 2 ^ 128 then Some v else None)"

definition f32_add :: "rat \<Rightarrow> rat \<Rightarrow> rat option" where
  "f32_add a b = f32_round (a + b)"

definition f32_sub :: "rat \<Rightarrow> rat \<Rightarrow> rat option" where
  "f32_sub a b = f32_round (a - b)"

definition f32_mul :: "rat \<Rightarrow> rat \<Rightarrow> rat option" where
  "f32_mul a b = f32_round (a * b)"

record SDL_Rect =
  rect_x :: int
  rect_y :: int
  rect_w :: int
  rect_h :: int

record SDL_PixelFormat =
  BytesPerPixel :: int
  Rshift :: nat
  Gshift :: nat
  Bshift :: nat
  GetRGB :: "Uint32 \<Rightarrow> Uint8 \<times> Uint8 \<times> Uint8"
  GetRGBA :: "Uint32 \<Rightarrow> Uint8 \<times> Uint8 \<times> Uint8 \<times> Uint8"
  MapRGBA :: "Uint8 \<Rightarrow> Uint8 \<Rightarrow> Uint8 \<Rightarrow> Uint8 \<Rightarrow> Uint32"

record SDL_Surface =
  format :: SDL_PixelFormat
  surf_w :: int
  surf_h :: int
  pitch :: int
  pixels :: "int \<Rightarrow> Uint8"
  clip_rect :: SDL_Rect
  lil_endian :: bool

text \<open>The bounding box \<^verbatim>\<open>int drawn_area[4]\<close>: min x, min y, max x, max y.\<close>

type_synonym drawn_area = "int \<times> int \<times> int \<times> int"

text \<open>Every entry point starts with \<^verbatim>\<open>{INT_MAX, INT_MAX, INT_MIN, INT_MIN}\<close>.\<close>

definition drawn_area_init :: drawn_area where
  "drawn_area_init = (INT_MAX, INT_MAX, INT_MIN, INT_MIN)"

subsection \<open>Stores and loads in the byte buffer\<close>

definition store_Uint16 :: "bool \<Rightarrow> (int \<Rightarrow> Uint8) \<Rightarrow> int \<Rightarrow> Uint16 \<Rightarrow> (int \<Rightarrow> Uint8)" where
  "store_Uint16 le m a v =
     (if le then m(a := ucast v, a + 1 := ucast (drop_bit 8 v))
      else m(a := ucast (drop_bit 8 v), a + 1 := ucast v))"

definition store_Uint32 :: "bool \<Rightarrow> (int \<Rightarrow> Uint8) \<Rightarrow> int \<Rightarrow> Uint32 \<Rightarrow> (int \<Rightarrow> Uint8)" where
  "store_Uint32 le m a v =
     (if le then m(a := ucast v, a + 1 := ucast (drop_bit 8 v),
                   a + 2 := ucast (drop_bit 16 v), a + 3 := ucast (drop_bit 24 v))
      else m(a := ucast (drop_bit 24 v), a + 1 := ucast (drop_bit 16 v),
             a + 2 := ucast (drop_bit 8 v), a + 3 := ucast v))"

definition load_Uint32 :: "bool \<Rightarrow> (int \<Rightarrow> Uint8) \<Rightarrow> int \<Rightarrow> Uint32" where
  "load_Uint32 le m a =
     (if le then ucast (m a) OR push_bit 8 (ucast (m (a + 1)))
                 OR push_bit 16 (ucast (m (a + 2))) OR push_bit 24 (ucast (m (a + 3)))
      else ucast (m (a + 3)) OR push_bit 8 (ucast (m (a + 2)))
           OR push_bit 16 (ucast (m (a + 1))) OR push_bit 24 (ucast (m a)))"

section \<open>The pixel writer and the bounding box\<close>

text \<open>\<^verbatim>\<open>add_pixel_to_drawn_list(x, y, pts)\<close>, lines 974-989.\<close>

definition add_pixel_to_drawn_list :: "int \<Rightarrow> int \<Rightarrow> drawn_area \<Rightarrow> drawn_area" where
  "add_pixel_to_drawn_list x y pts =
     (case pts of (p0, p1, p2, p3) \<Rightarrow>
        (if x < p0 then x else p0, if y < p1 then y else p1,
         if x > p2 then x else p2, if y > p3 then y else p3))"

text \<open>The clip test shared by \<^verbatim>\<open>set_at\<close> and \<^verbatim>\<open>get_antialiased_color\<close>; \<open>outside_clip\<close>
  is the condition of their early return.\<close>

definition outside_clip :: "SDL_Surface \<Rightarrow> int \<Rightarrow> int \<Rightarrow> bool" where
  "outside_clip surf x y =
     (x < rect_x (clip_rect surf) \<or> x \<ge> rect_x (clip_rect surf) + rect_w (clip_rect surf) \<or>
      y < rect_y (clip_rect surf) \<or> y \<ge> rect_y (clip_rect surf) + rect_h (clip_rect surf))"

text \<open>
  \<^verbatim>\<open>set_at(surf, x, y, color, drawn_area)\<close>, lines 1046-1083. The result is the returned
  \<^verbatim>\<open>int\<close>, the surface and the bounding box after the call. The \<^verbatim>\<open>default\<close> branch of the
  \<^verbatim>\<open>switch\<close> is the 3-byte store; its three byte stores happen in the order R, G, B.
\<close>

definition set_at ::
  "SDL_Surface \<Rightarrow> int \<Rightarrow> int \<Rightarrow> Uint32 \<Rightarrow> drawn_area \<Rightarrow> int \<times> SDL_Surface \<times> drawn_area" where
  "set_at surf x y color da =
     (if outside_clip surf x y then (0, surf, da)
      else
        let fmt = format surf; m = pixels surf;
            m' =
              (if BytesPerPixel fmt = 1 then m(y * pitch surf + x := ucast color)
               else if BytesPerPixel fmt = 2 then
                 store_Uint16 (lil_endian surf) m (y * pitch surf + 2 * x) (ucast color)
               else if BytesPerPixel fmt = 4 then
                 store_Uint32 (lil_endian surf) m (y * pitch surf + 4 * x) color
               else
                 (case GetRGB fmt color of (r, g, b) \<Rightarrow>
                    let byte_buf = y * pitch surf + x * 3 in
                    if lil_endian surf then
                      m(byte_buf + int (Rshift fmt div 8) := r,
                        byte_buf + int (Gshift fmt div 8) := g,
                        byte_buf + int (Bshift fmt div 8) := b)
                    else
                      m(byte_buf + 2 - int (Rshift fmt div 8) := r,
                        byte_buf + 2 - int (Gshift fmt div 8) := g,
                        byte_buf + 2 - int (Bshift fmt div 8) := b)))
        in (1, surf\<lparr>pixels := m'\<rparr>, add_pixel_to_drawn_list x y da))"

text \<open>
  No caller in the file uses the value returned by \<^verbatim>\<open>set_at\<close>, and every store into the
  pixel buffer goes through \<^verbatim>\<open>set_at\<close>. A drawing routine therefore acts on the surface
  and on the bounding box as the sequence of its \<^verbatim>\<open>set_at\<close> calls; \<open>set_at_seq\<close> runs
  such a sequence of requests \<open>(x, y, color)\<close>.
\<close>

definition set_at_seq ::
  "(int \<times> int \<times> Uint32) list \<Rightarrow> SDL_Surface \<times> drawn_area \<Rightarrow> SDL_Surface \<times> drawn_area" where
  "set_at_seq reqs st = fold (\<lambda>(x, y, c) (s, d). snd (set_at s x y c d)) reqs st"

text \<open>The requests of a routine that draws every point with the same color.\<close>

definition with_color :: "Uint32 \<Rightarrow> (int \<times> int) list \<Rightarrow> (int \<times> int \<times> Uint32) list" where
  "with_color color pts = map (\<lambda>(x, y). (x, y, color)) pts"

text \<open>The bytes of pixel \<open>(x, y)\<close> as \<^verbatim>\<open>set_at\<close> addresses them.\<close>

definition pixel_bytes :: "SDL_Surface \<Rightarrow> int \<Rightarrow> int \<Rightarrow> int set" where
  "pixel_bytes surf x y =
     {y * pitch surf + x * BytesPerPixel (format surf) ..<
      y * pitch surf + x * BytesPerPixel (format surf) + BytesPerPixel (format surf)}"

text \<open>
  The entry points accept \<^verbatim>\<open>BytesPerPixel\<close> 1 to 4 only; a 3-byte format keeps each
  channel in one of the three bytes of the pixel.
\<close>

definition format_ok :: "SDL_PixelFormat \<Rightarrow> bool" where
  "format_ok fmt =
     (BytesPerPixel fmt \<in> {1, 2, 3, 4} \<and>
      (BytesPerPixel fmt = 3 \<longrightarrow> Rshift fmt div 8 < 3 \<and> Gshift fmt div 8 < 3 \<and> Bshift fmt div 8 < 3))"

text \<open>
  \<^verbatim>\<open>get_antialiased_color(surf, x, y, original_color, brightness, blend)\<close>, lines 940-972.
  The destination is read as \<^verbatim>\<open>((Uint32 *)surf->pixels)[y * surf->w + x]\<close>, that is the
  four bytes from offset \<open>4 * (y * w + x)\<close>, whatever the pitch and the pixel size of the
  surface are. The cast \<^verbatim>\<open>(Uint8)\<close> of a float drops the fraction; the value the build
  gives outside the range of \<^verbatim>\<open>Uint8\<close> is the low byte of the truncated number. A
  \<^verbatim>\<open>Uint8\<close> operand is converted to \<^verbatim>\<open>float\<close> exactly.
\<close>

definition Uint8_of_float :: "rat \<Rightarrow> Uint8" where
  "Uint8_of_float r = word_of_int (if r \<ge> 0 then \<lfloor>r\<rfloor> else \<lceil>r\<rceil>)"

definition float_of_Uint8 :: "Uint8 \<Rightarrow> rat" where
  "float_of_Uint8 c = of_nat (unat c)"

text \<open>
  The float expression \<^verbatim>\<open>brightness * color_part[i] + (1 - brightness) * background_color[i]\<close>
  of the blend branch, its two products, its difference and its sum each rounded to
  binary32, and the expression \<^verbatim>\<open>brightness * color_part[i]\<close> of the other branch.
\<close>

definition blend_value :: "rat \<Rightarrow> Uint8 \<Rightarrow> Uint8 \<Rightarrow> rat option" where
  "blend_value brightness c b =
     do {
       p \<leftarrow> f32_mul brightness (float_of_Uint8 c);
       d \<leftarrow> f32_sub 1 brightness;
       q \<leftarrow> f32_mul d (float_of_Uint8 b);
       f32_add p q
     }"

definition blend_channel :: "rat \<Rightarrow> Uint8 \<Rightarrow> Uint8 \<Rightarrow> Uint8 option" where
  "blend_channel brightness c b = map_option Uint8_of_float (blend_value brightness c b)"

definition scale_channel :: "rat \<Rightarrow> Uint8 \<Rightarrow> Uint8 option" where
  "scale_channel brightness c = map_option Uint8_of_float (f32_mul brightness (float_of_Uint8 c))"

definition get_antialiased_color ::
  "SDL_Surface \<Rightarrow> int \<Rightarrow> int \<Rightarrow> Uint32 \<Rightarrow> rat \<Rightarrow> int \<Rightarrow> Uint32 option" where
  "get_antialiased_color surf x y original_color brightness blend =
     (case GetRGBA (format surf) original_color of (c0, c1, c2, c3) \<Rightarrow>
        if blend \<noteq> 0 then
          if outside_clip surf x y then Some original_color
          else
            (case GetRGBA (format surf)
                    (load_Uint32 (lil_endian surf) (pixels surf) (4 * (y * surf_w surf + x))) of
               (b0, b1, b2, b3) \<Rightarrow>
                 do {
                   r0 \<leftarrow> blend_channel brightness c0 b0;
                   r1 \<leftarrow> blend_channel brightness c1 b1;
                   r2 \<leftarrow> blend_channel brightness c2 b2;
                   r3 \<leftarrow> blend_channel brightness c3 b3;
                   Some (MapRGBA (format surf) r0 r1 r2 r3)
                 })
        else
          do {
            r0 \<leftarrow> scale_channel brightness c0;
            r1 \<leftarrow> scale_channel brightness c1;
            r2 \<leftarrow> scale_channel brightness c2;
            r3 \<leftarrow> scale_channel brightness c3;
            Some (MapRGBA (format surf) r0 r1 r2 r3)
          })"

text \<open>
  The block "Compute return rect" that ends every entry point: the bounding box when all
  four entries differ from the initial values, else a zero-size rectangle at the anchor.
\<close>

type_synonym py_rect = "int \<times> int \<times> int \<times> int"

definition return_rect :: "drawn_area \<Rightarrow> int \<Rightarrow> int \<Rightarrow> py_rect" where
  "return_rect da ax ay =
     (case da of (d0, d1, d2, d3) \<Rightarrow>
        if d0 \<noteq> INT_MAX \<and> d1 \<noteq> INT_MAX \<and> d2 \<noteq> INT_MIN \<and> d3 \<noteq> INT_MIN
        then (d0, d1, d2 - d0 + 1, d3 - d1 + 1)
        else (ax, ay, 0, 0))"


text \<open>SDL keeps the clip rectangle inside the surface, whose width and height are C ints.\<close>

definition clip_ok :: "SDL_Surface \<Rightarrow> bool" where
  "clip_ok surf =
     (0 \<le> rect_x (clip_rect surf) \<and> 0 \<le> rect_y (clip_rect surf) \<and>
      rect_x (clip_rect surf) + rect_w (clip_rect surf) \<le> surf_w surf \<and>
      rect_y (clip_rect surf) + rect_h (clip_rect surf) \<le> surf_h surf \<and>
      surf_w surf \<le> INT_MAX \<and> surf_h surf \<le> INT_MAX)"

text \<open>The requests of a sequence that \<^verbatim>\<open>set_at\<close> stores (those it answers with 1).\<close>

definition written :: "SDL_Surface \<Rightarrow> (int \<times> int \<times> Uint32) list \<Rightarrow> (int \<times> int) list" where
  "written surf reqs = map (\<lambda>(x, y, c). (x, y)) (filter (\<lambda>(x, y, c). \<not> outside_clip surf x y) reqs)"

text \<open>
  The file has no reader of a pixel. \<open>pixel_holds surf x y color\<close> says that the bytes of
  the pixel \<open>(x, y)\<close> in the buffer are the bytes of \<open>color\<close>: the low byte, the two bytes
  of \<^verbatim>\<open>(Uint16)color\<close>, the four bytes of \<open>color\<close>, or, for three bytes per pixel, the
  channels of \<^verbatim>\<open>SDL_GetRGB\<close> each in its byte.
\<close>

definition pixel_holds :: "SDL_Surface \<Rightarrow> int \<Rightarrow> int \<Rightarrow> Uint32 \<Rightarrow> bool" where
  "pixel_holds surf x y color =
     (let fmt = format surf; m = pixels surf in
        if BytesPerPixel fmt = 1 then m (y * pitch surf + x) = ucast color
        else if BytesPerPixel fmt = 2 then
          (if lil_endian surf
           then m (y * pitch surf + 2 * x) = ucast (ucast color :: Uint16) \<and>
                m (y * pitch surf + 2 * x + 1) = ucast (drop_bit 8 (ucast color :: Uint16))
           else m (y * pitch surf + 2 * x) = ucast (drop_bit 8 (ucast color :: Uint16)) \<and>
                m (y * pitch surf + 2 * x + 1) = ucast (ucast color :: Uint16))
        else if BytesPerPixel fmt = 4 then
          load_Uint32 (lil_endian surf) m (y * pitch surf + 4 * x) = color
        else
          (case GetRGB fmt color of (r, g, b) \<Rightarrow>
             if lil_endian surf
             then m (y * pitch surf + x * 3 + int (Rshift fmt div 8)) = r \<and>
                  m (y * pitch surf + x * 3 + int (Gshift fmt div 8)) = g \<and>
                  m (y * pitch surf + x * 3 + int (Bshift fmt div 8)) = b
             else m (y * pitch surf + x * 3 + 2 - int (Rshift fmt div 8)) = r \<and>
                  m (y * pitch surf + x * 3 + 2 - int (Gshift fmt div 8)) = g \<and>
                  m (y * pitch surf + x * 3 + 2 - int (Bshift fmt div 8)) = b))"

text \<open>
  A surface as SDL makes it: the clip rectangle inside the surface, a supported format,
  rows of at least \<^verbatim>\<open>w * BytesPerPixel\<close> bytes, and for three bytes per pixel the three
  channels in three different bytes.
\<close>

definition surface_ok :: "SDL_Surface \<Rightarrow> bool" where
  "surface_ok surf =
     (clip_ok surf \<and> format_ok (format surf) \<and>
      surf_w surf * BytesPerPixel (format surf) \<le> pitch surf \<and>
      (BytesPerPixel (format surf) = 3 \<longrightarrow>
         distinct [Rshift (format surf) div 8, Gshift (format surf) div 8,
                   Bshift (format surf) div 8]))"

section \<open>Line rasters\<close>

text \<open>
  Each drawing routine below is embedded as the list of the \<^verbatim>\<open>set_at\<close> calls it makes, in
  order; all of them carry the routine's \<^verbatim>\<open>surf\<close>, \<^verbatim>\<open>color\<close> and \<^verbatim>\<open>drawn_area\<close>. The
  result is an \<open>option\<close>: \<open>None\<close> means that the routine does not return.

  \<^verbatim>\<open>draw_line\<close>, lines 1140-1172. The \<^verbatim>\<open>while\<close> loop of the general case ends only
  when the current point is the end point, and the two \<^verbatim>\<open>for\<close> loops of the horizontal
  and of the vertical case end only when the counter exceeds \<^verbatim>\<open>abs(x1 - x2)\<close>
  (\<^verbatim>\<open>abs(y1 - y2)\<close>), which a counter that wraps at \<open>INT_MAX\<close> need not do; the three loops
  are partial functions. \<open>n\<close> is the value of \<^verbatim>\<open>abs(x1 - x2)\<close> (\<^verbatim>\<open>abs(y1 - y2)\<close>), which
  the loop does not change.
\<close>

partial_function (option) draw_line_hloop ::
  "int \<Rightarrow> int \<Rightarrow> int \<Rightarrow> int \<Rightarrow> int \<Rightarrow> (int \<times> int) list option" where
  "draw_line_hloop x1 y1 dx n sx =
     (if sx \<le> n then
        do {
          ps \<leftarrow> draw_line_hloop x1 y1 dx n (c_add sx 1);
          Some ((c_add x1 (c_mul dx sx), y1) # ps)
        }
      else Some [])"

partial_function (option) draw_line_vloop ::
  "int \<Rightarrow> int \<Rightarrow> int \<Rightarrow> int \<Rightarrow> int \<Rightarrow> (int \<times> int) list option" where
  "draw_line_vloop x1 y1 dy n sy =
     (if sy \<le> n then
        do {
          ps \<leftarrow> draw_line_vloop x1 y1 dy n (c_add sy 1);
          Some ((x1, c_add y1 (c_mul dy sy)) # ps)
        }
      else Some [])"

partial_function (option) draw_line_loop ::
  "int \<Rightarrow> int \<Rightarrow> int \<Rightarrow> int \<Rightarrow> int \<Rightarrow> int \<Rightarrow> int \<Rightarrow> int \<Rightarrow> int \<Rightarrow> (int \<times> int) list option" where
  "draw_line_loop dx dy sx sy x2 y2 x1 y1 err =
     (if x1 \<noteq> x2 \<or> y1 \<noteq> y2 then
        let e2 = err;
            err' = (if e2 > c_neg dx then c_sub err dy else err);
            x1' = (if e2 > c_neg dx then c_add x1 sx else x1);
            err'' = (if e2 < dy then c_add err' dx else err');
            y1' = (if e2 < dy then c_add y1 sy else y1)
        in do {
             ps \<leftarrow> draw_line_loop dx dy sx sy x2 y2 x1' y1' err'';
             Some ((x1, y1) # ps)
           }
      else Some [])"

definition draw_line :: "int \<Rightarrow> int \<Rightarrow> int \<Rightarrow> int \<Rightarrow> (int \<times> int) list option" where
  "draw_line x1 y1 x2 y2 =
     (if x1 = x2 \<and> y1 = y2 then Some [(x1, y1)]
      else if y1 = y2 then
        let dx = (if x1 < x2 then 1 else - 1)
        in draw_line_hloop x1 y1 dx (c_abs (c_sub x1 x2)) 0
      else if x1 = x2 then
        let dy = (if y1 < y2 then 1 else - 1)
        in draw_line_vloop x1 y1 dy (c_abs (c_sub y1 y2)) 0
      else
        let dx = c_abs (c_sub x2 x1); sx = (if x1 < x2 then 1 else - 1);
            dy = c_abs (c_sub y2 y1); sy = (if y1 < y2 then 1 else - 1);
            err = c_div (if dx > dy then dx else c_neg dy) 2
        in do {
             ps \<leftarrow> draw_line_loop dx dy sx sy x2 y2 x1 y1 err;
             Some (ps @ [(x2, y2)])
           })"

text \<open>
  \<^verbatim>\<open>draw_line_width(surf, color, width, pts, drawn_area)\<close>, lines 1005-1044, with
  \<^verbatim>\<open>pts = {p0, p1, p2, p3}\<close>; \<open>o0\<close> to \<open>o3\<close> are the \<^verbatim>\<open>original_values\<close>. The routine
  overwrites \<^verbatim>\<open>pts\<close>; every caller refills the array before its next use.
\<close>

partial_function (option) draw_line_width_loop ::
  "int \<Rightarrow> int \<Rightarrow> int \<Rightarrow> int \<Rightarrow> int \<Rightarrow> int \<Rightarrow> int \<Rightarrow> int \<Rightarrow> (int \<times> int) list option" where
  "draw_line_width_loop width xinc yinc o0 o1 o2 o3 loop =
     (if loop < width then
        do {
          a \<leftarrow> draw_line (c_add o0 (c_mul xinc (c_add (c_div loop 2) 1)))
                         (c_add o1 (c_mul yinc (c_add (c_div loop 2) 1)))
                         (c_add o2 (c_mul xinc (c_add (c_div loop 2) 1)))
                         (c_add o3 (c_mul yinc (c_add (c_div loop 2) 1)));
          b \<leftarrow> (if c_add loop 1 < width then
                  draw_line (c_sub o0 (c_mul xinc (c_add (c_div loop 2) 1)))
                            (c_sub o1 (c_mul yinc (c_add (c_div loop 2) 1)))
                            (c_sub o2 (c_mul xinc (c_add (c_div loop 2) 1)))
                            (c_sub o3 (c_mul yinc (c_add (c_div loop 2) 1)))
                else Some []);
          r \<leftarrow> draw_line_width_loop width xinc yinc o0 o1 o2 o3 (c_add loop 2);
          Some (a @ b @ r)
        }
      else Some [])"

definition draw_line_width :: "int \<Rightarrow> int \<Rightarrow> int \<Rightarrow> int \<Rightarrow> int \<Rightarrow> (int \<times> int) list option" where
  "draw_line_width width p0 p1 p2 p3 =
     (let yinc = (if c_abs (c_sub p0 p2) > c_abs (c_sub p1 p3) then 1 else 0);
          xinc = (if c_abs (c_sub p0 p2) > c_abs (c_sub p1 p3) then 0 else 1)
      in do {
           central \<leftarrow> draw_line p0 p1 p2 p3;
           more \<leftarrow> (if width \<noteq> 1 then draw_line_width_loop width xinc yinc p0 p1 p2 p3 1
                    else Some []);
           Some (central @ more)
         })"


section \<open>Circle rasters\<close>

text \<open>
  \<^verbatim>\<open>draw_circle_filled\<close>, lines 1432-1462. One round of the \<^verbatim>\<open>while (x < y)\<close> loop updates
  the driver \<open>(f, ddF_x, ddF_y, x, y)\<close> and then draws two pairs of vertical spans.
\<close>

function draw_circle_filled_loop ::
  "int \<Rightarrow> int \<Rightarrow> int \<Rightarrow> int \<Rightarrow> int \<Rightarrow> int \<Rightarrow> int \<Rightarrow> (int \<times> int) list" where
  "draw_circle_filled_loop x0 y0 f ddF_x ddF_y x y =
     (if x < y then
        let y' = (if f \<ge> 0 then y - 1 else y);
            ddF_y' = (if f \<ge> 0 then ddF_y + 2 else ddF_y);
            f1 = (if f \<ge> 0 then f + ddF_y' else f);
            x' = x + 1;
            ddF_x' = ddF_x + 2;
            f' = f1 + ddF_x' + 1
        in concat (map (\<lambda>y1. [(x0 + y' - 1, y1), (x0 - y', y1)]) [y0 - x' .. y0 + x' - 1])
           @ concat (map (\<lambda>y1. [(x0 + x' - 1, y1), (x0 - x', y1)]) [y0 - y' .. y0 + y' - 1])
           @ draw_circle_filled_loop x0 y0 f' ddF_x' ddF_y' x' y'
      else [])"
  by pat_completeness auto
termination
  by (relation "measure (\<lambda>(x0, y0, f, ddF_x, ddF_y, x, y). nat (y - x))") (auto simp: Let_def)

declare draw_circle_filled_loop.simps [simp del]

definition draw_circle_filled :: "int \<Rightarrow> int \<Rightarrow> int \<Rightarrow> (int \<times> int) list" where
  "draw_circle_filled x0 y0 radius =
     draw_circle_filled_loop x0 y0 (1 - radius) 0 (- 2 * radius) 0 radius"

text \<open>
  \<^verbatim>\<open>draw_circle_bresenham\<close>, lines 1225-1286. \<open>bresenham_octants\<close> is the body of the
  \<^verbatim>\<open>for (i = 0; i < thickness; i++)\<close> loop: four guarded pairs of calls.
\<close>

definition bresenham_octants :: "int \<Rightarrow> int \<Rightarrow> int \<Rightarrow> int \<Rightarrow> int \<Rightarrow> (int \<times> int) list" where
  "bresenham_octants x0 y0 x y i =
     (let y1 = y - i in
        (if (y0 + y1 - 1) \<ge> (y0 + x - 1)
         then [(x0 + x - 1, y0 + y1 - 1), (x0 - x, y0 + y1 - 1)] else [])
        @ (if (y0 - y1) \<le> (y0 - x)
           then [(x0 + x - 1, y0 - y1), (x0 - x, y0 - y1)] else [])
        @ (if (x0 + y1 - 1) \<ge> (x0 + x - 1)
           then [(x0 + y1 - 1, y0 + x - 1), (x0 + y1 - 1, y0 - x)] else [])
        @ (if (x0 - y1) \<le> (x0 - x)
           then [(x0 - y1, y0 + x - 1), (x0 - y1, y0 - x)] else []))"

function draw_circle_bresenham_loop ::
  "int \<Rightarrow> int \<Rightarrow> int \<Rightarrow> int \<Rightarrow> int \<Rightarrow> int \<Rightarrow> int \<Rightarrow> int \<Rightarrow> int \<Rightarrow> int \<Rightarrow> int \<Rightarrow> int
     \<Rightarrow> (int \<times> int) list" where
  "draw_circle_bresenham_loop x0 y0 thickness f ddF_x ddF_y x y i_y i_f i_ddF_x i_ddF_y =
     (if x < y then
        let y' = (if f \<ge> 0 then y - 1 else y);
            ddF_y' = (if f \<ge> 0 then ddF_y + 2 else ddF_y);
            f1 = (if f \<ge> 0 then f + ddF_y' else f);
            i_y' = (if i_f \<ge> 0 then i_y - 1 else i_y);
            i_ddF_y' = (if i_f \<ge> 0 then i_ddF_y + 2 else i_ddF_y);
            i_f1 = (if i_f \<ge> 0 then i_f + i_ddF_y' else i_f);
            x' = x + 1;
            ddF_x' = ddF_x + 2;
            f' = f1 + ddF_x' + 1;
            i_ddF_x' = i_ddF_x + 2;
            i_f' = i_f1 + i_ddF_x' + 1;
            thickness' = (if thickness > 1 then y' - i_y' else thickness)
        in concat (map (bresenham_octants x0 y0 x' y') [0 .. thickness' - 1])
           @ draw_circle_bresenham_loop x0 y0 thickness' f' ddF_x' ddF_y' x' y'
               i_y' i_f' i_ddF_x' i_ddF_y'
      else [])"
  by pat_completeness auto
termination
  by (relation "measure (\<lambda>(x0, y0, thickness, f, ddF_x, ddF_y, x, y, r). nat (y - x))")
     (auto simp: Let_def)

declare draw_circle_bresenham_loop.simps [simp del]

definition draw_circle_bresenham :: "int \<Rightarrow> int \<Rightarrow> int \<Rightarrow> int \<Rightarrow> (int \<times> int) list" where
  "draw_circle_bresenham x0 y0 radius thickness =
     draw_circle_bresenham_loop x0 y0 thickness (1 - radius) 0 (- 2 * radius) 0 radius
       (radius - thickness) (1 - (radius - thickness)) 0 (- 2 * (radius - thickness))"

text \<open>
  \<^verbatim>\<open>draw_circle_quadrant\<close>, lines 1288-1430: the special case of radius 1, the stroked
  quadrants (\<^verbatim>\<open>thickness != 0\<close>) and the filled quadrants.
\<close>

definition quadrant_octants ::
  "int \<Rightarrow> int \<Rightarrow> int \<Rightarrow> int \<Rightarrow> int \<Rightarrow> int \<Rightarrow> int \<Rightarrow> int \<Rightarrow> int \<Rightarrow> (int \<times> int) list" where
  "quadrant_octants x0 y0 x y thickness top_right top_left bottom_left bottom_right =
     (if top_right > 0 then
        concat (map (\<lambda>i. let y1 = y - i in
          (if (y0 - y1) < (y0 - x) then [(x0 + x - 1, y0 - y1)] else [])
          @ (if (x0 + y1 - 1) \<ge> (x0 + x - 1) then [(x0 + y1 - 1, y0 - x)] else []))
          [0 .. thickness - 1])
      else [])
     @ (if top_left > 0 then
          concat (map (\<lambda>i. let y1 = y - i in
            (if (y0 - y1) \<le> (y0 - x) then [(x0 - x, y0 - y1)] else [])
            @ (if (x0 - y1) < (x0 - x) then [(x0 - y1, y0 - x)] else []))
            [0 .. thickness - 1])
        else [])
     @ (if bottom_left > 0 then
          concat (map (\<lambda>i. let y1 = y - i in
            (if (x0 - y1) \<le> (x0 - x) then [(x0 - y1, y0 + x - 1)] else [])
            @ (if (y0 + y1 - 1) > (y0 + x - 1) then [(x0 - x, y0 + y1 - 1)] else []))
            [0 .. thickness - 1])
        else [])
     @ (if bottom_right > 0 then
          concat (map (\<lambda>i. let y1 = y - i in
            (if (y0 + y1 - 1) \<ge> (y0 + x - 1) then [(x0 + x - 1, y0 + y1 - 1)] else [])
            @ (if (x0 + y1 - 1) > (x0 + x - 1) then [(x0 + y1 - 1, y0 + x - 1)] else []))
            [0 .. thickness - 1])
        else [])"

function draw_circle_quadrant_stroke ::
  "int \<Rightarrow> int \<Rightarrow> int \<Rightarrow> int \<Rightarrow> int \<Rightarrow> int \<Rightarrow> int \<Rightarrow> int \<Rightarrow> int \<Rightarrow> int \<Rightarrow> int \<Rightarrow> int \<Rightarrow> int \<Rightarrow> int
     \<Rightarrow> int \<Rightarrow> int \<Rightarrow> (int \<times> int) list" where
  "draw_circle_quadrant_stroke x0 y0 top_right top_left bottom_left bottom_right
       thickness f ddF_x ddF_y x y i_y i_f i_ddF_x i_ddF_y =
     (if x < y then
        let y' = (if f \<ge> 0 then y - 1 else y);
            ddF_y' = (if f \<ge> 0 then ddF_y + 2 else ddF_y);
            f1 = (if f \<ge> 0 then f + ddF_y' else f);
            i_y' = (if i_f \<ge> 0 then i_y - 1 else i_y);
            i_ddF_y' = (if i_f \<ge> 0 then i_ddF_y + 2 else i_ddF_y);
            i_f1 = (if i_f \<ge> 0 then i_f + i_ddF_y' else i_f);
            x' = x + 1;
            ddF_x' = ddF_x + 2;
            f' = f1 + ddF_x' + 1;
            i_ddF_x' = i_ddF_x + 2;
            i_f' = i_f1 + i_ddF_x' + 1;
            thickness' = (if thickness > 1 then y' - i_y' else thickness)
        in quadrant_octants x0 y0 x' y' thickness' top_right top_left bottom_left bottom_right
           @ draw_circle_quadrant_stroke x0 y0 top_right top_left bottom_left bottom_right
               thickness' f' ddF_x' ddF_y' x' y' i_y' i_f' i_ddF_x' i_ddF_y'
      else [])"
  by pat_completeness auto
termination
  by (relation "measure (\<lambda>(x0, y0, tr, tl, bl, br, thickness, f, ddF_x, ddF_y, x, y, r).
        nat (y - x))")
     (auto simp: Let_def)

declare draw_circle_quadrant_stroke.simps [simp del]

definition quadrant_spans ::
  "int \<Rightarrow> int \<Rightarrow> int \<Rightarrow> int \<Rightarrow> int \<Rightarrow> int \<Rightarrow> int \<Rightarrow> int \<Rightarrow> (int \<times> int) list" where
  "quadrant_spans x0 y0 x y top_right top_left bottom_left bottom_right =
     (if top_right > 0 then
        map (\<lambda>y1. (x0 + y - 1, y1)) [y0 - x .. y0] @ map (\<lambda>y1. (x0 + x - 1, y1)) [y0 - y .. y0]
      else [])
     @ (if top_left > 0 then
          map (\<lambda>y1. (x0 - y, y1)) [y0 - x .. y0] @ map (\<lambda>y1. (x0 - x, y1)) [y0 - y .. y0]
        else [])
     @ (if bottom_left > 0 then
          map (\<lambda>y1. (x0 - y, y1)) [y0 .. y0 + x - 1] @ map (\<lambda>y1. (x0 - x, y1)) [y0 .. y0 + y - 1]
        else [])
     @ (if bottom_right > 0 then
          map (\<lambda>y1. (x0 + y - 1, y1)) [y0 .. y0 + x - 1]
          @ map (\<lambda>y1. (x0 + x - 1, y1)) [y0 .. y0 + y - 1]
        else [])"

function draw_circle_quadrant_fill ::
  "int \<Rightarrow> int \<Rightarrow> int \<Rightarrow> int \<Rightarrow> int \<Rightarrow> int \<Rightarrow> int \<Rightarrow> int \<Rightarrow> int \<Rightarrow> int \<Rightarrow> int \<Rightarrow> (int \<times> int) list" where
  "draw_circle_quadrant_fill x0 y0 top_right top_left bottom_left bottom_right
       f ddF_x ddF_y x y =
     (if x < y then
        let y' = (if f \<ge> 0 then y - 1 else y);
            ddF_y' = (if f \<ge> 0 then ddF_y + 2 else ddF_y);
            f1 = (if f \<ge> 0 then f + ddF_y' else f);
            x' = x + 1;
            ddF_x' = ddF_x + 2;
            f' = f1 + ddF_x' + 1
        in quadrant_spans x0 y0 x' y' top_right top_left bottom_left bottom_right
           @ draw_circle_quadrant_fill x0 y0 top_right top_left bottom_left bottom_right
               f' ddF_x' ddF_y' x' y'
      else [])"
  by pat_completeness auto
termination
  by (relation "measure (\<lambda>(x0, y0, tr, tl, bl, br, f, ddF_x, ddF_y, x, y). nat (y - x))")
     (auto simp: Let_def)

declare draw_circle_quadrant_fill.simps [simp del]

definition draw_circle_quadrant ::
  "int \<Rightarrow> int \<Rightarrow> int \<Rightarrow> int \<Rightarrow> int \<Rightarrow> int \<Rightarrow> int \<Rightarrow> int \<Rightarrow> (int \<times> int) list" where
  "draw_circle_quadrant x0 y0 radius thickness top_right top_left bottom_left bottom_right =
     (if radius = 1 then
        (if top_right > 0 then [(x0, y0 - 1)] else [])
        @ (if top_left > 0 then [(x0 - 1, y0 - 1)] else [])
        @ (if bottom_left > 0 then [(x0 - 1, y0)] else [])
        @ (if bottom_right > 0 then [(x0, y0)] else [])
      else if thickness \<noteq> 0 then
        draw_circle_quadrant_stroke x0 y0 top_right top_left bottom_left bottom_right
          thickness (1 - radius) 0 (- 2 * radius) 0 radius
          (radius - thickness) (1 - (radius - thickness)) 0 (- 2 * (radius - thickness))
      else
        draw_circle_quadrant_fill x0 y0 top_right top_left bottom_left bottom_right
          (1 - radius) 0 (- 2 * radius) 0 radius)"


section \<open>Ellipse raster\<close>

text \<open>
  \<^verbatim>\<open>draw_ellipse\<close>, lines 1464-1593. \<^verbatim>\<open>>> 6\<close> on an \<^verbatim>\<open>int\<close> is the arithmetic shift
  (\<open>div 64\<close>), \<^verbatim>\<open>>> 1\<close> is \<open>drop_bit 1\<close>. The two \<^verbatim>\<open>do ... while (i > h)\<close> loops are
  partial functions. \<open>draw_ellipse_wide\<close> is the loop of the branch \<^verbatim>\<open>rx >= ry\<close>, which
  uses the guards \<^verbatim>\<open>oj\<close>, \<^verbatim>\<open>ok\<close>; \<open>draw_ellipse_tall\<close> is the other one, with \<^verbatim>\<open>oh\<close>, \<^verbatim>\<open>oi\<close>.
\<close>

definition Sint16 :: "int \<Rightarrow> int" where
  "Sint16 v = sint (word_of_int v :: 16 word)"

partial_function (option) draw_ellipse_wide ::
  "int \<Rightarrow> int \<Rightarrow> int \<Rightarrow> int \<Rightarrow> int \<Rightarrow> int \<Rightarrow> int \<Rightarrow> int \<Rightarrow> int \<Rightarrow> int \<Rightarrow> int
     \<Rightarrow> (int \<times> int) list option" where
  "draw_ellipse_wide x y xoff yoff rx ry solid ix iy oj ok =
     (let h = (ix + 8) div 64;
          i = (iy + 8) div 64;
          j = c_div (h * ry) rx;
          k = c_div (i * ry) rx;
          first = ((ok \<noteq> k \<and> oj \<noteq> k \<and> k < ry) \<or> solid = 0);
          ok' = (if first then k else ok);
          second = ((oj \<noteq> j \<and> ok' \<noteq> j \<and> k \<noteq> j) \<or> solid = 0);
          oj' = (if second then j else oj);
          ix' = ix + c_div iy rx;
          iy' = iy - c_div ix' rx
      in do {
           a \<leftarrow> (if first then
                    if solid \<noteq> 0 then
                      do {
                        l1 \<leftarrow> draw_line (x - h) (y - k - yoff) (x + h - xoff) (y - k - yoff);
                        l2 \<leftarrow> draw_line (x - h) (y + k) (x + h - xoff) (y + k);
                        Some (l1 @ l2)
                      }
                    else Some [(x - h, y - k - yoff), (x + h - xoff, y - k - yoff),
                               (x - h, y + k), (x + h - xoff, y + k)]
                  else Some []);
           b \<leftarrow> (if second then
                    if solid \<noteq> 0 then
                      do {
                        l1 \<leftarrow> draw_line (x - i) (y + j) (x + i - xoff) (y + j);
                        l2 \<leftarrow> draw_line (x - i) (y - j - yoff) (x + i - xoff) (y - j - yoff);
                        Some (l1 @ l2)
                      }
                    else Some [(x - i, y + j), (x + i - xoff, y + j),
                               (x - i, y - j - yoff), (x + i - xoff, y - j - yoff)]
                  else Some []);
           r \<leftarrow> (if i > h then draw_ellipse_wide x y xoff yoff rx ry solid ix' iy' oj' ok'
                 else Some []);
           Some (a @ b @ r)
         })"

partial_function (option) draw_ellipse_tall ::
  "int \<Rightarrow> int \<Rightarrow> int \<Rightarrow> int \<Rightarrow> int \<Rightarrow> int \<Rightarrow> int \<Rightarrow> int \<Rightarrow> int \<Rightarrow> int \<Rightarrow> int
     \<Rightarrow> (int \<times> int) list option" where
  "draw_ellipse_tall x y xoff yoff rx ry solid ix iy oh oi =
     (let h = (ix + 8) div 64;
          i = (iy + 8) div 64;
          j = c_div (h * rx) ry;
          k = c_div (i * rx) ry;
          first = ((oi \<noteq> i \<and> oh \<noteq> i \<and> i < ry) \<or> solid = 0);
          oi' = (if first then i else oi);
          second = ((oh \<noteq> h \<and> oi' \<noteq> h \<and> i \<noteq> h) \<or> solid = 0);
          oh' = (if second then h else oh);
          ix' = ix + c_div iy ry;
          iy' = iy - c_div ix' ry
      in do {
           a \<leftarrow> (if first then
                    if solid \<noteq> 0 then
                      do {
                        l1 \<leftarrow> draw_line (x - j) (y + i) (x + j - xoff) (y + i);
                        l2 \<leftarrow> draw_line (x - j) (y - i - yoff) (x + j - xoff) (y - i - yoff);
                        Some (l1 @ l2)
                      }
                    else Some [(x - j, y + i), (x + j - xoff, y + i),
                               (x - j, y - i - yoff), (x + j - xoff, y - i - yoff)]
                  else Some []);
           b \<leftarrow> (if second then
                    if solid \<noteq> 0 then
                      do {
                        l1 \<leftarrow> draw_line (x - k) (y + h) (x + k - xoff) (y + h);
                        l2 \<leftarrow> draw_line (x - k) (y - h - yoff) (x + k - xoff) (y - h - yoff);
                        Some (l1 @ l2)
                      }
                    else Some [(x - k, y + h), (x + k - xoff, y + h),
                               (x - k, y - h - yoff), (x + k - xoff, y - h - yoff)]
                  else Some []);
           r \<leftarrow> (if i > h then draw_ellipse_tall x y xoff yoff rx ry solid ix' iy' oh' oi'
                 else Some []);
           Some (a @ b @ r)
         })"

text \<open>
  The part of \<^verbatim>\<open>draw_ellipse\<close> from the comment \<^verbatim>\<open>/* Init vars */\<close> on: the rasterization
  proper, for the half-extents \<open>rx\<close> and \<open>ry\<close> it is given.
\<close>

definition draw_ellipse_raster ::
  "int \<Rightarrow> int \<Rightarrow> int \<Rightarrow> int \<Rightarrow> int \<Rightarrow> int \<Rightarrow> int \<Rightarrow> (int \<times> int) list option" where
  "draw_ellipse_raster x y xoff yoff rx ry solid =
     (if rx \<ge> ry then draw_ellipse_wide x y xoff yoff rx ry solid 0 (rx * 64) 65535 65535
      else draw_ellipse_tall x y xoff yoff rx ry solid 0 (ry * 64) 65535 65535)"

definition draw_ellipse :: "int \<Rightarrow> int \<Rightarrow> int \<Rightarrow> int \<Rightarrow> int \<Rightarrow> (int \<times> int) list option" where
  "draw_ellipse x y width height solid =
     (let xoff = (width AND 1) XOR 1;
          yoff = (height AND 1) XOR 1;
          rx = drop_bit 1 width;
          ry = drop_bit 1 height
      in if rx = 0 \<and> ry = 0 then Some [(x, y)]
         else if rx = 0 then
           draw_line x (Sint16 (y - ry)) x (Sint16 (y + ry + (height AND 1)))
         else if ry = 0 then
           draw_line (Sint16 (x - rx)) y (Sint16 (x + rx + (width AND 1))) y
         else draw_ellipse_raster x y xoff yoff rx (ry + ((solid AND 1) - yoff)) solid)"

section \<open>Scratch buffers\<close>

text \<open>
  \<^verbatim>\<open>PyMem_New\<close> may return \<^verbatim>\<open>NULL\<close>. The allocator state lists the outcomes of the coming
  allocations (\<open>alloc_ok\<close>; an empty list means success) and the blocks that are allocated
  and not yet freed (\<open>live\<close>). A pointer is \<open>None\<close> for \<^verbatim>\<open>NULL\<close>. \<^verbatim>\<open>PyMem_Del\<close> and
  \<^verbatim>\<open>PyMem_Free\<close> release a block and ignore \<^verbatim>\<open>NULL\<close>.
\<close>

record pymem =
  alloc_ok :: "bool list"
  live :: "nat list"
  fresh :: nat

definition PyMem_New :: "pymem \<Rightarrow> nat option \<times> pymem" where
  "PyMem_New hp =
     (let granted = (case alloc_ok hp of [] \<Rightarrow> True | b # bs \<Rightarrow> b);
          hp' = hp\<lparr>alloc_ok := tl (alloc_ok hp)\<rparr>
      in if granted
         then (Some (fresh hp), hp'\<lparr>live := fresh hp # live hp, fresh := Suc (fresh hp)\<rparr>)
         else (None, hp'))"

definition PyMem_Del :: "nat option \<Rightarrow> pymem \<Rightarrow> pymem" where
  "PyMem_Del p hp = (case p of None \<Rightarrow> hp | Some b \<Rightarrow> hp\<lparr>live := removeAll b (live hp)\<rparr>)"

section \<open>Polygon fill\<close>

text \<open>
  \<^verbatim>\<open>draw_fillpoly\<close>, lines 1595-1703. The scratch array \<^verbatim>\<open>x_intersect\<close> has \<^verbatim>\<open>num_points\<close>
  entries and is never initialised: an entry is \<open>None\<close> until a scanline writes it.
  \<^verbatim>\<open>qsort\<close> with \<^verbatim>\<open>compare_int\<close> sorts the first \<^verbatim>\<open>n_intersections\<close> entries in ascending
  order. The pair loop reads \<^verbatim>\<open>x_intersect[i + 1]\<close>, which for an odd number of
  intersections is an entry left by an earlier scanline, an uninitialised entry or an
  entry past the end of the array; in the last two cases the call has no defined result.
\<close>

definition array_read :: "int option list \<Rightarrow> nat \<Rightarrow> int option" where
  "array_read a i = (if i < length a then a ! i else None)"

definition fillpoly_edge :: "int list \<Rightarrow> int list \<Rightarrow> int \<Rightarrow> int \<Rightarrow> nat \<Rightarrow> int list" where
  "fillpoly_edge point_x point_y maxy y i =
     (let i_previous = (if i \<noteq> 0 then i - 1 else length point_y - 1);
          y1 = point_y ! i_previous;
          y2 = point_y ! i
      in if y1 < y2 then
           (let x1 = point_x ! i_previous; x2 = point_x ! i
            in if (y \<ge> y1 \<and> y < y2) \<or> (y = maxy \<and> y2 = maxy)
               then [c_add (c_div (c_mul (c_sub y y1) (c_sub x2 x1)) (c_sub y2 y1)) x1] else [])
         else if y1 > y2 then
           (let y2' = point_y ! i_previous; y1' = point_y ! i;
                x2 = point_x ! i_previous; x1 = point_x ! i
            in if (y \<ge> y1' \<and> y < y2') \<or> (y = maxy \<and> y2' = maxy)
               then [c_add (c_div (c_mul (c_sub y y1') (c_sub x2 x1)) (c_sub y2' y1')) x1]
               else [])
         else [])"

function fillpoly_pairs ::
  "int option list \<Rightarrow> nat \<Rightarrow> int \<Rightarrow> nat \<Rightarrow> (int \<times> int) list option" where
  "fillpoly_pairs x_intersect n_intersections y i =
     (if i < n_intersections then
        (case (array_read x_intersect i, array_read x_intersect (i + 1)) of
           (Some a, Some b) \<Rightarrow>
             do {
               l \<leftarrow> draw_line a y b y;
               r \<leftarrow> fillpoly_pairs x_intersect n_intersections y (i + 2);
               Some (l @ r)
             }
         | _ \<Rightarrow> None)
      else Some [])"
  by pat_completeness auto
termination
  by (relation "measure (\<lambda>(x_intersect, n_intersections, y, i). n_intersections - i)") auto

declare fillpoly_pairs.simps [simp del]

partial_function (option) fillpoly_scan ::
  "int list \<Rightarrow> int list \<Rightarrow> int \<Rightarrow> int option list \<Rightarrow> int \<Rightarrow> (int \<times> int) list option" where
  "fillpoly_scan point_x point_y maxy x_intersect y =
     (if y \<le> maxy then
        let found = concat (map (fillpoly_edge point_x point_y maxy y) [0 ..< length point_y]);
            x_intersect' = map Some (sort found) @ drop (length found) x_intersect
        in do {
             a \<leftarrow> fillpoly_pairs x_intersect' (length found) y 0;
             r \<leftarrow> fillpoly_scan point_x point_y maxy x_intersect' (c_add y 1);
             Some (a @ r)
           }
      else Some [])"

fun fillpoly_fixup :: "int list \<Rightarrow> int list \<Rightarrow> int \<Rightarrow> int \<Rightarrow> nat list \<Rightarrow> (int \<times> int) list option" where
  "fillpoly_fixup point_x point_y miny maxy [] = Some []"
| "fillpoly_fixup point_x point_y miny maxy (i # is) =
     (let i_previous = (if i \<noteq> 0 then i - 1 else length point_y - 1);
          y = point_y ! i
      in do {
           a \<leftarrow> (if miny < y \<and> point_y ! i_previous = y \<and> y < maxy
                 then draw_line (point_x ! i) y (point_x ! i_previous) y else Some []);
           r \<leftarrow> fillpoly_fixup point_x point_y miny maxy is;
           Some (a @ r)
         })"

text \<open>
  The body of \<^verbatim>\<open>draw_fillpoly\<close> after the allocation; \<^verbatim>\<open>num_points\<close> is the length of the
  two coordinate arrays, which has to be positive (\<^verbatim>\<open>point_y[0]\<close> is read).
\<close>

definition draw_fillpoly_body :: "int list \<Rightarrow> int list \<Rightarrow> (int \<times> int) list option" where
  "draw_fillpoly_body point_x point_y =
     (if point_y = [] \<or> length point_x \<noteq> length point_y then None
      else
        let miny = fold min (tl point_y) (hd point_y);
            maxy = fold max (tl point_y) (hd point_y)
        in if miny = maxy then
             let minx = fold min (tl point_x) (hd point_x);
                 maxx = fold max (tl point_x) (hd point_x)
             in draw_line minx miny maxx miny
           else
             do {
               a \<leftarrow> fillpoly_scan point_x point_y maxy (replicate (length point_y) None) miny;
               b \<leftarrow> fillpoly_fixup point_x point_y miny maxy [0 ..< length point_y];
               Some (a @ b)
             })"

text \<open>
  \<^verbatim>\<open>draw_fillpoly\<close>: the calls it makes, whether it reported \<^verbatim>\<open>PyErr_NoMemory()\<close>, and the
  allocator state when it returns.
\<close>

definition draw_fillpoly ::
  "int list \<Rightarrow> int list \<Rightarrow> pymem \<Rightarrow> (int \<times> int) list option \<times> bool \<times> pymem" where
  "draw_fillpoly point_x point_y hp =
     (case PyMem_New hp of
        (None, hp') \<Rightarrow> (Some [], True, hp')
      | (Some x_intersect, hp') \<Rightarrow>
          (draw_fillpoly_body point_x point_y, False, PyMem_Del (Some x_intersect) hp'))"

section \<open>The entry points called from Python\<close>

text \<open>
  The entry points are embedded after \<^verbatim>\<open>PyArg_ParseTupleAndKeywords\<close>: their arguments are
  the parsed objects. A color object is a Python integer, an object that
  \<^verbatim>\<open>pg_RGBAFromColorObj\<close> converts, or anything else. A position is \<open>None\<close> when
  \<^verbatim>\<open>pg_TwoIntsFromObj\<close> fails; \<^verbatim>\<open>points\<close> is \<open>None\<close> when it is not a sequence; the
  \<^verbatim>\<open>closed\<close> object is \<open>None\<close> when \<^verbatim>\<open>PyObject_IsTrue\<close> answers -1. A surface object
  carries the outcome of \<^verbatim>\<open>pgSurface_Lock\<close> and \<^verbatim>\<open>pgSurface_Unlock\<close>. Building the
  argument tuple of a forwarded call is assumed to succeed.

  An entry point returns a rectangle, or raises (returns \<^verbatim>\<open>NULL\<close> with an exception set);
  \<open>Rect_with_error\<close> is a rectangle returned while an exception is set.
\<close>

datatype colorobj = PyInt int | RGBAColor Uint8 Uint8 Uint8 Uint8 | NotAColor

datatype py_exception =
  PyExc_TypeError string | PyExc_ValueError string | PyExc_RuntimeError string
  | PyExc_MemoryError string

datatype py_return = Rect py_rect | Raise py_exception | Rect_with_error py_rect py_exception

record pgSurfaceObject =
  surface :: SDL_Surface
  lock_succeeds :: bool
  unlock_succeeds :: bool

text \<open>The macro \<^verbatim>\<open>CHECK_LOAD_COLOR\<close>, lines 75-82; \<open>None\<close> is its \<^verbatim>\<open>RAISE\<close> branch.\<close>

definition CHECK_LOAD_COLOR :: "SDL_PixelFormat \<Rightarrow> colorobj \<Rightarrow> Uint32 option" where
  "CHECK_LOAD_COLOR fmt obj =
     (case obj of
        PyInt n \<Rightarrow> Some (word_of_int n)
      | RGBAColor r g b a \<Rightarrow> Some (MapRGBA fmt r g b a)
      | NotAColor \<Rightarrow> None)"

definition unsupported_depth :: py_exception where
  "unsupported_depth = PyExc_ValueError ''unsupported surface bit depth for drawing''"

text \<open>\<^verbatim>\<open>line\<close>, lines 157-222.\<close>

definition line ::
  "pgSurfaceObject \<Rightarrow> colorobj \<Rightarrow> (int \<times> int) option \<Rightarrow> (int \<times> int) option \<Rightarrow> int
     \<Rightarrow> (py_return \<times> SDL_Surface) option" where
  "line surfobj colorobj start_pos end_pos width =
     (let surf = surface surfobj in
      if BytesPerPixel (format surf) \<le> 0 \<or> BytesPerPixel (format surf) > 4
      then Some (Raise unsupported_depth, surf)
      else
        case CHECK_LOAD_COLOR (format surf) colorobj of
          None \<Rightarrow> Some (Raise (PyExc_TypeError ''invalid color argument''), surf)
        | Some color \<Rightarrow>
        case start_pos of
          None \<Rightarrow> Some (Raise (PyExc_TypeError ''invalid start_pos argument''), surf)
        | Some (startx, starty) \<Rightarrow>
        case end_pos of
          None \<Rightarrow> Some (Raise (PyExc_TypeError ''invalid end_pos argument''), surf)
        | Some (endx, endy) \<Rightarrow>
        if width < 1 then Some (Rect (startx, starty, 0, 0), surf)
        else if \<not> lock_succeeds surfobj
        then Some (Raise (PyExc_RuntimeError ''error locking surface''), surf)
        else
          do {
            calls \<leftarrow> draw_line_width width startx starty endx endy;
            let (surf', da) = set_at_seq (with_color color calls) (surf, drawn_area_init);
            if \<not> unlock_succeeds surfobj
            then Some (Raise (PyExc_RuntimeError ''error unlocking surface''), surf')
            else Some (Rect (return_rect da startx starty), surf')
          })"

text \<open>
  \<^verbatim>\<open>lines\<close>, lines 354-477. \<open>lines_segments\<close> is the loop over consecutive points. The
  loop that fills \<^verbatim>\<open>xlist\<close> and \<^verbatim>\<open>ylist\<close> leaves at the first item that is not a number
  pair; it does nothing else, so the model tests whether such an item exists.
\<close>

fun lines_segments :: "int \<Rightarrow> (int \<times> int) list \<Rightarrow> (int \<times> int) list option" where
  "lines_segments width (p # q # ps) =
     do {
       a \<leftarrow> draw_line_width width (fst p) (snd p) (fst q) (snd q);
       r \<leftarrow> lines_segments width (q # ps);
       Some (a @ r)
     }"
| "lines_segments width ps = Some []"

definition lines ::
  "pgSurfaceObject \<Rightarrow> colorobj \<Rightarrow> bool option \<Rightarrow> (int \<times> int) option list option \<Rightarrow> int
     \<Rightarrow> pymem \<Rightarrow> (py_return \<times> SDL_Surface \<times> pymem) option" where
  "lines surfobj colorobj closedobj points width hp =
     (let surf = surface surfobj in
      if BytesPerPixel (format surf) \<le> 0 \<or> BytesPerPixel (format surf) > 4
      then Some (Raise unsupported_depth, surf, hp)
      else
        case CHECK_LOAD_COLOR (format surf) colorobj of
          None \<Rightarrow> Some (Raise (PyExc_TypeError ''invalid color argument''), surf, hp)
        | Some color \<Rightarrow>
        case closedobj of
          None \<Rightarrow> Some (Raise (PyExc_TypeError ''closed argument is invalid''), surf, hp)
        | Some closed' \<Rightarrow>
        case points of
          None \<Rightarrow>
            Some (Raise (PyExc_TypeError ''points argument must be a sequence of number pairs''),
                  surf, hp)
        | Some items \<Rightarrow>
        if length items < 2
        then Some (Raise (PyExc_ValueError ''points argument must contain 2 or more points''),
                   surf, hp)
        else
          case PyMem_New hp of (xlist, hp1) \<Rightarrow>
          case PyMem_New hp1 of (ylist, hp2) \<Rightarrow>
          if xlist = None \<or> ylist = None
          then Some (Raise (PyExc_MemoryError ''cannot allocate memory to draw lines''),
                     surf, hp2)
          else
            let freed = PyMem_Del ylist (PyMem_Del xlist hp2) in
            if None \<in> set items
            then Some (Raise (PyExc_TypeError ''points must be number pairs''), surf, freed)
            else
              let pts = map the items; x = fst (hd pts); y = snd (hd pts) in
              if width < 1 then Some (Rect (x, y, 0, 0), surf, freed)
              else if \<not> lock_succeeds surfobj
              then Some (Raise (PyExc_RuntimeError ''error locking surface''), surf, freed)
              else
                do {
                  a \<leftarrow> lines_segments width pts;
                  b \<leftarrow> (if closed' \<and> length pts > 2
                        then draw_line_width width (fst (last pts)) (snd (last pts))
                               (fst (hd pts)) (snd (hd pts))
                        else Some []);
                  let (surf', da) = set_at_seq (with_color color (a @ b)) (surf, drawn_area_init);
                  if \<not> unlock_succeeds surfobj
                  then Some (Raise (PyExc_RuntimeError ''error unlocking surface''), surf', freed)
                  else Some (Rect (return_rect da x y), surf', freed)
                })"

text \<open>
  \<^verbatim>\<open>circle\<close>, lines 638-726. \<open>circle_calls\<close> is the choice between the three rasters
  (lines 699-713), taken with \<^verbatim>\<open>width\<close> already clamped to the radius.
\<close>

definition circle_calls ::
  "int \<Rightarrow> int \<Rightarrow> int \<Rightarrow> int \<Rightarrow> int \<Rightarrow> int \<Rightarrow> int \<Rightarrow> int \<Rightarrow> (int \<times> int) list" where
  "circle_calls posx posy radius width top_right top_left bottom_left bottom_right =
     (if top_right = 0 \<and> top_left = 0 \<and> bottom_left = 0 \<and> bottom_right = 0 then
        if width = 0 \<or> width = radius
        then draw_circle_filled posx posy radius
        else draw_circle_bresenham posx posy radius width
      else draw_circle_quadrant posx posy radius width
             top_right top_left bottom_left bottom_right)"

definition circle ::
  "pgSurfaceObject \<Rightarrow> colorobj \<Rightarrow> (int \<times> int) option \<Rightarrow> int option \<Rightarrow> int
     \<Rightarrow> int \<Rightarrow> int \<Rightarrow> int \<Rightarrow> int \<Rightarrow> py_return \<times> SDL_Surface" where
  "circle surfobj colorobj posobj radiusobj width top_right top_left bottom_left bottom_right =
     (let surf = surface surfobj in
      case posobj of
        None \<Rightarrow> (Raise (PyExc_TypeError ''center argument must be a pair of numbers''), surf)
      | Some (posx, posy) \<Rightarrow>
      case radiusobj of
        None \<Rightarrow> (Raise (PyExc_TypeError ''radius argument must be a number''), surf)
      | Some radius \<Rightarrow>
      if BytesPerPixel (format surf) \<le> 0 \<or> BytesPerPixel (format surf) > 4
      then (Raise unsupported_depth, surf)
      else
        case CHECK_LOAD_COLOR (format surf) colorobj of
          None \<Rightarrow> (Raise (PyExc_TypeError ''invalid color argument''), surf)
        | Some color \<Rightarrow>
        if radius < 1 \<or> width < 0 then (Rect (posx, posy, 0, 0), surf)
        else
          let width' = (if width > radius then radius else width) in
          if \<not> lock_succeeds surfobj
          then (Raise (PyExc_RuntimeError ''error locking surface''), surf)
          else
            let calls = circle_calls posx posy radius width'
                          top_right top_left bottom_left bottom_right;
                (surf', da) = set_at_seq (with_color color calls) (surf, drawn_area_init)
            in if \<not> unlock_succeeds surfobj
               then (Raise (PyExc_RuntimeError ''error unlocking surface''), surf')
               else (Rect (return_rect da posx posy), surf'))"

text \<open>
  \<^verbatim>\<open>polygon\<close>, lines 728-833. A non-zero \<^verbatim>\<open>width\<close> forwards the call to \<^verbatim>\<open>lines\<close> with
  \<^verbatim>\<open>closed = 1\<close> before anything else is looked at.
\<close>

definition polygon ::
  "pgSurfaceObject \<Rightarrow> colorobj \<Rightarrow> (int \<times> int) option list option \<Rightarrow> int
     \<Rightarrow> pymem \<Rightarrow> (py_return \<times> SDL_Surface \<times> pymem) option" where
  "polygon surfobj colorobj points width hp =
     (if width \<noteq> 0 then lines surfobj colorobj (Some True) points width hp
      else
        let surf = surface surfobj in
        if BytesPerPixel (format surf) \<le> 0 \<or> BytesPerPixel (format surf) > 4
        then Some (Raise unsupported_depth, surf, hp)
        else
          case CHECK_LOAD_COLOR (format surf) colorobj of
            None \<Rightarrow> Some (Raise (PyExc_TypeError ''invalid color argument''), surf, hp)
          | Some color \<Rightarrow>
          case points of
            None \<Rightarrow>
              Some (Raise (PyExc_TypeError ''points argument must be a sequence of number pairs''),
                    surf, hp)
          | Some items \<Rightarrow>
          if length items < 3
          then Some (Raise (PyExc_ValueError ''points argument must contain more than 2 points''),
                     surf, hp)
          else
            case PyMem_New hp of (xlist, hp1) \<Rightarrow>
            case PyMem_New hp1 of (ylist, hp2) \<Rightarrow>
            if xlist = None \<or> ylist = None
            then Some (Raise (PyExc_MemoryError ''cannot allocate memory to draw polygon''),
                       surf, hp2)
            else
              if None \<in> set items
              then Some (Raise (PyExc_TypeError ''points must be number pairs''), surf,
                         PyMem_Del ylist (PyMem_Del xlist hp2))
              else
                let pts = map the items; l = fst (hd pts); t = snd (hd pts) in
                if \<not> lock_succeeds surfobj
                then Some (Raise (PyExc_RuntimeError ''error locking surface''), surf,
                           PyMem_Del ylist (PyMem_Del xlist hp2))
                else
                  case draw_fillpoly (map fst pts) (map snd pts) hp2 of
                    (drawn, no_memory, hp3) \<Rightarrow>
                  do {
                    calls \<leftarrow> drawn;
                    let (surf', da) = set_at_seq (with_color color calls) (surf, drawn_area_init);
                    let freed = PyMem_Del ylist (PyMem_Del xlist hp3);
                    if \<not> unlock_succeeds surfobj
                    then Some (Raise (PyExc_RuntimeError ''error unlocking surface''), surf', freed)
                    else if no_memory
                    then Some (Rect_with_error (return_rect da l t) (PyExc_MemoryError []),
                               surf', freed)
                    else Some (Rect (return_rect da l t), surf', freed)
                  })"

section \<open>A concrete surface\<close>

text \<open>
  The surface of the scenarios of the specification: 32 bits per pixel, 8-bit RGBA
  channels, the clip rectangle is the whole surface. It serves the evaluations below.
\<close>

definition rgba8888 :: SDL_PixelFormat where
  "rgba8888 =
     \<lparr>BytesPerPixel = 4, Rshift = 24, Gshift = 16, Bshift = 8,
      GetRGB = (\<lambda>c. (ucast (drop_bit 24 c), ucast (drop_bit 16 c), ucast (drop_bit 8 c))),
      GetRGBA = (\<lambda>c. (ucast (drop_bit 24 c), ucast (drop_bit 16 c), ucast (drop_bit 8 c), ucast c)),
      MapRGBA = (\<lambda>r g b a. push_bit 24 (ucast r) OR push_bit 16 (ucast g)
                            OR push_bit 8 (ucast b) OR ucast a)\<rparr>"

definition blank_surface :: "int \<Rightarrow> int \<Rightarrow> SDL_Surface" where
  "blank_surface width height =
     \<lparr>format = rgba8888, surf_w = width, surf_h = height, pitch = 4 * width,
      pixels = (\<lambda>a. 0),
      clip_rect = \<lparr>rect_x = 0, rect_y = 0, rect_w = width, rect_h = height\<rparr>,
      lil_endian = True\<rparr>"

text \<open>
  An 8-bit surface of 8 by 8 pixels, one byte per pixel and 8 bytes per row, whose clip
  rectangle is the 2 by 2 square at the origin; a color is its gray level.
\<close>

definition gray8 :: SDL_PixelFormat where
  "gray8 =
     \<lparr>BytesPerPixel = 1, Rshift = 0, Gshift = 0, Bshift = 0,
      GetRGB = (\<lambda>c. (ucast c, ucast c, ucast c)),
      GetRGBA = (\<lambda>c. (ucast c, ucast c, ucast c, 255)),
      MapRGBA = (\<lambda>r g b a. ucast r)\<rparr>"

definition clipped_gray_surface :: SDL_Surface where
  "clipped_gray_surface =
     \<lparr>format = gray8, surf_w = 8, surf_h = 8, pitch = 8,
      pixels = (\<lambda>a. 0),
      clip_rect = \<lparr>rect_x = 0, rect_y = 0, rect_w = 2, rect_h = 2\<rparr>,
      lil_endian = True\<rparr>"

definition lockable :: "SDL_Surface \<Rightarrow> pgSurfaceObject" where
  "lockable surf = \<lparr>surface = surf, lock_succeeds = True, unlock_succeeds = True\<rparr>"

definition pymem_init :: "bool list \<Rightarrow> pymem" where
  "pymem_init outcomes = \<lparr>alloc_ok = outcomes, live = [], fresh = 0\<rparr>"

text \<open>Two surfaces that differ in the content of the pixel buffer only.\<close>

definition same_geometry :: "SDL_Surface \<Rightarrow> SDL_Surface \<Rightarrow> bool" where
  "same_geometry s s' = (s'\<lparr>pixels := pixels s\<rparr> = s)"

text \<open>
  Endpoints that \<^verbatim>\<open>draw_line\<close> handles without a wrap: four C ints whose differences
  in \<open>x\<close> and in \<open>y\<close> are below \<open>INT_MAX\<close> in absolute value.
\<close>

definition line_fits :: "int \<Rightarrow> int \<Rightarrow> int \<Rightarrow> int \<Rightarrow> bool" where
  "line_fits x1 y1 x2 y2 =
     (int_range x1 \<and> int_range y1 \<and> int_range x2 \<and> int_range y2 \<and>
      \<bar>x2 - x1\<bar> < INT_MAX \<and> \<bar>y2 - y1\<bar> < INT_MAX)"

text \<open>
  The pixels visited by \<open>n\<close> rounds of the loop of \<^verbatim>\<open>draw_line\<close> from the state
  \<open>(x, y, e)\<close>, without the loop's test: a structurally recursive companion of
  \<open>draw_line_loop\<close> for the proofs.
\<close>

fun line_walk :: "nat \<Rightarrow> int \<Rightarrow> int \<Rightarrow> int \<Rightarrow> int \<Rightarrow> int \<Rightarrow> int \<Rightarrow> int \<Rightarrow> (int \<times> int) list" where
  "line_walk 0 dx dy sx sy x y e = []"
| "line_walk (Suc n) dx dy sx sy x y e =
     (x, y) # line_walk n dx dy sx sy
        (if e > - dx then x + sx else x) (if e < dy then y + sy else y)
        ((if e > - dx then e - dy else e) + (if e < dy then dx else 0))"

text \<open>
  The driver shared by \<^verbatim>\<open>draw_circle_filled\<close> and \<^verbatim>\<open>draw_circle_bresenham\<close>: the values of
  \<open>(x, y)\<close> after each round of \<^verbatim>\<open>while (x < y)\<close>, in order.
\<close>

function circle_states :: "int \<Rightarrow> int \<Rightarrow> int \<Rightarrow> int \<Rightarrow> int \<Rightarrow> (int \<times> int) list" where
  "circle_states f ddF_x ddF_y x y =
     (if x < y then
        let y' = (if f \<ge> 0 then y - 1 else y);
            ddF_y' = (if f \<ge> 0 then ddF_y + 2 else ddF_y);
            f1 = (if f \<ge> 0 then f + ddF_y' else f);
            x' = x + 1;
            ddF_x' = ddF_x + 2;
            f' = f1 + ddF_x' + 1
        in (x', y') # circle_states f' ddF_x' ddF_y' x' y'
      else [])"
  by pat_completeness auto
termination
  by (relation "measure (\<lambda>(f, ddF_x, ddF_y, x, y). nat (y - x))") (auto simp: Let_def)

declare circle_states.simps [simp del]

text \<open>The two pairs of vertical spans of one round of \<^verbatim>\<open>draw_circle_filled\<close>.\<close>

definition filled_spans :: "int \<Rightarrow> int \<Rightarrow> int \<Rightarrow> int \<Rightarrow> (int \<times> int) list" where
  "filled_spans x0 y0 x y =
     concat (map (\<lambda>y1. [(x0 + y - 1, y1), (x0 - y, y1)]) [y0 - x .. y0 + x - 1])
     @ concat (map (\<lambda>y1. [(x0 + x - 1, y1), (x0 - x, y1)]) [y0 - y .. y0 + y - 1])"

text \<open>The offset of a pixel from the centre, folded onto the quadrant \<open>0 \<le> a\<close>.\<close>

definition fold_off :: "int \<Rightarrow> int" where
  "fold_off a = (if 0 \<le> a then a else - 1 - a)"

section \<open>Clip safety\<close>

lemma set_at_geometry: "same_geometry surf (fst (snd (set_at surf x y c da)))"
  by (simp add: set_at_def same_geometry_def Let_def split: prod.splits)

lemma same_geometry_clip: "same_geometry s s' \<Longrightarrow> outside_clip s' x y = outside_clip s x y"
  unfolding same_geometry_def outside_clip_def
  by (cases s; cases s'; simp)

lemma same_geometry_sel:
  "same_geometry s s' \<Longrightarrow>
     format s' = format s \<and> pitch s' = pitch s \<and> clip_rect s' = clip_rect s \<and>
     lil_endian s' = lil_endian s \<and> surf_w s' = surf_w s \<and> surf_h s' = surf_h s"
  unfolding same_geometry_def
  by (cases s; cases s'; simp)

lemma same_geometry_trans:
  "same_geometry s s' \<Longrightarrow> same_geometry s' s'' \<Longrightarrow> same_geometry s s''"
  unfolding same_geometry_def
  by (cases s; cases s'; cases s''; simp)

lemma set_at_frame:
  assumes ok: "format_ok (format surf)"
    and b: "outside_clip surf x y \<or> b \<notin> pixel_bytes surf x y"
  shows "pixels (fst (snd (set_at surf x y c da))) b = pixels surf b"
proof (cases "outside_clip surf x y")
  case True
  then show ?thesis by (simp add: set_at_def)
next
  case False
  with b have nb: "b \<notin> pixel_bytes surf x y" by simp
  consider "BytesPerPixel (format surf) = 1" | "BytesPerPixel (format surf) = 2"
    | "BytesPerPixel (format surf) = 4" | "BytesPerPixel (format surf) = 3"
    using ok by (auto simp: format_ok_def)
  then show ?thesis
  proof cases
    case 1
    with nb have "b \<noteq> y * pitch surf + x" by (auto simp add: pixel_bytes_def)
    with 1 False show ?thesis by (simp add: set_at_def Let_def)
  next
    case 2
    with nb have "b \<noteq> y * pitch surf + 2 * x" "b \<noteq> y * pitch surf + 2 * x + 1"
      by (auto simp add: pixel_bytes_def)
    with 2 False show ?thesis by (simp add: set_at_def store_Uint16_def Let_def)
  next
    case 3
    with nb have "b \<noteq> y * pitch surf + 4 * x" "b \<noteq> y * pitch surf + 4 * x + 1"
       "b \<noteq> y * pitch surf + 4 * x + 2" "b \<noteq> y * pitch surf + 4 * x + 3"
      by (auto simp add: pixel_bytes_def)
    with 3 False show ?thesis by (simp add: set_at_def store_Uint32_def Let_def)
  next
    case 4
    with ok have sh: "Rshift (format surf) div 8 < 3" "Gshift (format surf) div 8 < 3"
       "Bshift (format surf) div 8 < 3"
      by (auto simp: format_ok_def)
    from nb 4 have r: "b < y * pitch surf + x * 3 \<or> b \<ge> y * pitch surf + x * 3 + 3"
      by (auto simp add: pixel_bytes_def)
    have "b \<noteq> y * pitch surf + x * 3 + int (Rshift (format surf) div 8)"
       "b \<noteq> y * pitch surf + x * 3 + int (Gshift (format surf) div 8)"
       "b \<noteq> y * pitch surf + x * 3 + int (Bshift (format surf) div 8)"
       "b \<noteq> y * pitch surf + x * 3 + 2 - int (Rshift (format surf) div 8)"
       "b \<noteq> y * pitch surf + x * 3 + 2 - int (Gshift (format surf) div 8)"
       "b \<noteq> y * pitch surf + x * 3 + 2 - int (Bshift (format surf) div 8)"
      using r sh by linarith+
    with 4 False show ?thesis by (simp add: set_at_def Let_def split: prod.splits)
  qed
qed

lemma set_at_seq_Nil: "set_at_seq [] st = st"
  by (simp add: set_at_seq_def)

lemma set_at_seq_Cons:
  "set_at_seq ((x, y, c) # reqs) (surf, da) = set_at_seq reqs (snd (set_at surf x y c da))"
  by (cases "set_at surf x y c da") (simp add: set_at_seq_def)

lemma set_at_seq_append:
  "set_at_seq (as @ bs) st = set_at_seq bs (set_at_seq as st)"
  by (simp add: set_at_seq_def)

lemma set_at_seq_frame:
  assumes "format_ok (format surf)"
    and "\<forall>x y. b \<in> pixel_bytes surf x y \<longrightarrow> outside_clip surf x y"
  shows "pixels (fst (set_at_seq reqs (surf, da))) b = pixels surf b \<and>
         same_geometry surf (fst (set_at_seq reqs (surf, da)))"
  using assms
proof (induction reqs arbitrary: surf da)
  case Nil
  then show ?case by (simp add: set_at_seq_Nil same_geometry_def)
next
  case (Cons r reqs)
  obtain x y c where r: "r = (x, y, c)" by (cases r)
  obtain rv s1 d1 where st: "set_at surf x y c da = (rv, s1, d1)"
    by (cases "set_at surf x y c da")
  have g: "same_geometry surf s1" using set_at_geometry[of surf x y c da] st by simp
  have p1: "pixels s1 b = pixels surf b"
    using set_at_frame[of surf x y b c da] Cons.prems st by auto
  have sel: "format s1 = format surf" "pitch s1 = pitch surf"
    using same_geometry_sel[OF g] by auto
  have pb: "\<And>x y. pixel_bytes s1 x y = pixel_bytes surf x y"
    by (simp add: pixel_bytes_def sel)
  have oc: "\<And>x y. outside_clip s1 x y = outside_clip surf x y"
    using same_geometry_clip[OF g] by simp
  have ih: "pixels (fst (set_at_seq reqs (s1, d1))) b = pixels s1 b \<and>
            same_geometry s1 (fst (set_at_seq reqs (s1, d1)))"
    by (rule Cons.IH) (use Cons.prems sel pb oc in auto)
  have step: "set_at_seq (r # reqs) (surf, da) = set_at_seq reqs (s1, d1)"
    by (simp add: set_at_seq_Cons r st)
  have tr: "same_geometry surf (fst (set_at_seq reqs (s1, d1)))"
    using g ih same_geometry_trans by blast
  show ?case using ih p1 step tr by simp
qed

section \<open>The returned rectangle\<close>

lemma written_Nil: "written surf [] = []" by (simp add: written_def)

lemma written_Cons:
  "written surf ((x, y, c) # reqs) = (if outside_clip surf x y then written surf reqs else (x, y) # written surf reqs)"
  by (simp add: written_def)

lemma written_geometry: "same_geometry s s' \<Longrightarrow> written s' reqs = written s reqs"
  using same_geometry_clip[of s s'] by (simp add: written_def)

lemma set_at_drawn_area:
  "snd (snd (set_at surf x y c da)) = (if outside_clip surf x y then da else add_pixel_to_drawn_list x y da)"
  by (simp add: set_at_def Let_def)

lemma set_at_seq_drawn_area:
  "snd (set_at_seq reqs (surf, da)) = fold (\<lambda>(x, y). add_pixel_to_drawn_list x y) (written surf reqs) da"
proof (induction reqs arbitrary: surf da)
  case Nil
  then show ?case by (simp add: set_at_seq_Nil written_Nil)
next
  case (Cons r reqs)
  obtain x y c where r: "r = (x, y, c)" by (cases r)
  obtain rv s1 d1 where st: "set_at surf x y c da = (rv, s1, d1)"
    by (cases "set_at surf x y c da")
  have g: "same_geometry surf s1" using set_at_geometry[of surf x y c da] st by simp
  have d1: "d1 = (if outside_clip surf x y then da else add_pixel_to_drawn_list x y da)"
    using set_at_drawn_area[of surf x y c da] st by simp
  have "snd (set_at_seq (r # reqs) (surf, da)) = snd (set_at_seq reqs (s1, d1))"
    by (simp add: r set_at_seq_Cons st)
  also have "\<dots> = fold (\<lambda>(x, y). add_pixel_to_drawn_list x y) (written s1 reqs) d1"
    by (rule Cons.IH)
  also have "\<dots> = fold (\<lambda>(x, y). add_pixel_to_drawn_list x y) (written surf (r # reqs)) da"
    by (simp add: written_geometry[OF g] r written_Cons d1)
  finally show ?case .
qed

lemma fold_add_pixel:
  "fold (\<lambda>(x, y). add_pixel_to_drawn_list x y) ps (a, b, c, d) = (d0, d1, d2, d3) \<Longrightarrow>
     ((d0 = a \<or> (\<exists>p \<in> set ps. d0 = fst p)) \<and> d0 \<le> a \<and> (\<forall>p \<in> set ps. d0 \<le> fst p)) \<and>
     ((d1 = b \<or> (\<exists>p \<in> set ps. d1 = snd p)) \<and> d1 \<le> b \<and> (\<forall>p \<in> set ps. d1 \<le> snd p)) \<and>
     ((d2 = c \<or> (\<exists>p \<in> set ps. d2 = fst p)) \<and> c \<le> d2 \<and> (\<forall>p \<in> set ps. fst p \<le> d2)) \<and>
     ((d3 = d \<or> (\<exists>p \<in> set ps. d3 = snd p)) \<and> d \<le> d3 \<and> (\<forall>p \<in> set ps. snd p \<le> d3))"
proof (induction ps arbitrary: a b c d)
  case Nil
  then show ?case by simp
next
  case (Cons p ps)
  obtain x y where p: "p = (x, y)" by (cases p)
  define a' where "a' = (if x < a then x else a)"
  define b' where "b' = (if y < b then y else b)"
  define c' where "c' = (if x > c then x else c)"
  define d' where "d' = (if y > d then y else d)"
  have e: "add_pixel_to_drawn_list x y (a, b, c, d) = (a', b', c', d')"
    by (simp add: add_pixel_to_drawn_list_def a'_def b'_def c'_def d'_def)
  have f: "fold (\<lambda>(x, y). add_pixel_to_drawn_list x y) ps (a', b', c', d') = (d0, d1, d2, d3)"
    using Cons.prems by (simp add: p e)
  note ih = Cons.IH[OF f]
  have A: "(d0 = a \<or> (\<exists>p \<in> set (p # ps). d0 = fst p)) \<and> d0 \<le> a \<and> (\<forall>p \<in> set (p # ps). d0 \<le> fst p)"
    using ih p by (auto simp: a'_def split: if_splits)
  have B: "(d1 = b \<or> (\<exists>p \<in> set (p # ps). d1 = snd p)) \<and> d1 \<le> b \<and> (\<forall>p \<in> set (p # ps). d1 \<le> snd p)"
    using ih p by (auto simp: b'_def split: if_splits)
  have C: "(d2 = c \<or> (\<exists>p \<in> set (p # ps). d2 = fst p)) \<and> c \<le> d2 \<and> (\<forall>p \<in> set (p # ps). fst p \<le> d2)"
    using ih p by (auto simp: c'_def split: if_splits)
  have D: "(d3 = d \<or> (\<exists>p \<in> set (p # ps). d3 = snd p)) \<and> d \<le> d3 \<and> (\<forall>p \<in> set (p # ps). snd p \<le> d3)"
    using ih p by (auto simp: d'_def split: if_splits)
  show ?case by (rule conjI[OF A conjI[OF B conjI[OF C D]]])
qed

lemma written_in_clip: "(x, y) \<in> set (written surf reqs) \<Longrightarrow> \<not> outside_clip surf x y"
  by (auto simp add: written_def)

lemma clip_ok_range:
  assumes "clip_ok surf" and "\<not> outside_clip surf x y"
  shows "INT_MIN < x \<and> x < INT_MAX \<and> INT_MIN < y \<and> y < INT_MAX"
  using assms by (auto simp add: clip_ok_def outside_clip_def INT_MIN_def INT_MAX_def)

subsection \<open>Stores\<close>

text \<open>
  A 32-bit word stored at a byte address is read back unchanged from that address, in
  either byte order.
\<close>

lemma bytes_of_word:
  fixes v :: Uint32
  shows "ucast (ucast v :: Uint8) OR push_bit 8 (ucast (ucast (drop_bit 8 v) :: Uint8))
         OR push_bit 16 (ucast (ucast (drop_bit 16 v) :: Uint8))
         OR push_bit 24 (ucast (ucast (drop_bit 24 v) :: Uint8)) = v"
proof (rule bit_word_eqI)
  fix n assume n: "n < LENGTH(32)"
  then have n32: "n < 32" by simp
  consider "n < 8" | "8 \<le> n \<and> n < 16" | "16 \<le> n \<and> n < 24" | "24 \<le> n \<and> n < 32"
    using n32 by linarith
  then show "bit ((ucast (ucast v :: Uint8) OR push_bit 8 (ucast (ucast (drop_bit 8 v) :: Uint8))
         OR push_bit 16 (ucast (ucast (drop_bit 16 v) :: Uint8))
         OR push_bit 24 (ucast (ucast (drop_bit 24 v) :: Uint8))) :: Uint32) n = bit v n"
  proof cases
    case 1
    then show ?thesis by (simp add: bit_simps)
  next
    case 2
    then show ?thesis by (auto simp add: bit_simps)
  next
    case 3
    then show ?thesis by (auto simp add: bit_simps)
  next
    case 4
    then show ?thesis by (auto simp add: bit_simps)
  qed
qed

lemma load_store_Uint32: "load_Uint32 le (store_Uint32 le m a v) a = v"
proof (cases le)
  case True
  have "load_Uint32 True (store_Uint32 True m a v) a =
          ucast (ucast v :: Uint8) OR push_bit 8 (ucast (ucast (drop_bit 8 v) :: Uint8))
         OR push_bit 16 (ucast (ucast (drop_bit 16 v) :: Uint8))
         OR push_bit 24 (ucast (ucast (drop_bit 24 v) :: Uint8))"
    unfolding load_Uint32_def store_Uint32_def by simp
  then show ?thesis using True bytes_of_word by simp
next
  case False
  have "load_Uint32 False (store_Uint32 False m a v) a =
          ucast (ucast v :: Uint8) OR push_bit 8 (ucast (ucast (drop_bit 8 v) :: Uint8))
         OR push_bit 16 (ucast (ucast (drop_bit 16 v) :: Uint8))
         OR push_bit 24 (ucast (ucast (drop_bit 24 v) :: Uint8))"
    unfolding load_Uint32_def store_Uint32_def by simp
  then show ?thesis using False bytes_of_word by simp
qed


text \<open>
  \<^verbatim>\<open>set_at\<close> inside the clip rectangle leaves the color in the bytes of the pixel; the
  bytes of two different pixels inside the clip rectangle are apart; so a sequence of
  \<^verbatim>\<open>set_at\<close> calls leaves in every pixel the color of the last call that stored it, and
  changes no byte of another pixel.
\<close>

lemma set_at_holds:
  assumes ok: "surface_ok surf" and inc: "\<not> outside_clip surf x y"
  shows "pixel_holds (fst (snd (set_at surf x y c da))) x y c"
proof -
  have fo: "format_ok (format surf)" using ok by (simp add: surface_ok_def)
  consider "BytesPerPixel (format surf) = 1" | "BytesPerPixel (format surf) = 2"
    | "BytesPerPixel (format surf) = 4" | "BytesPerPixel (format surf) = 3"
    using fo by (auto simp: format_ok_def)
  then show ?thesis
  proof cases
    case 1
    then show ?thesis using inc by (simp add: set_at_def pixel_holds_def Let_def)
  next
    case 2
    then show ?thesis using inc
      by (simp add: set_at_def pixel_holds_def Let_def store_Uint16_def)
  next
    case 3
    then show ?thesis using inc
      by (simp add: set_at_def pixel_holds_def Let_def load_store_Uint32)
  next
    case 4
    then have d: "Rshift (format surf) div 8 \<noteq> Gshift (format surf) div 8"
      "Rshift (format surf) div 8 \<noteq> Bshift (format surf) div 8"
      "Gshift (format surf) div 8 \<noteq> Bshift (format surf) div 8"
      using ok by (simp_all add: surface_ok_def)
    obtain r g b where rgb: "GetRGB (format surf) c = (r, g, b)"
      by (cases "GetRGB (format surf) c")
    show ?thesis
    proof (cases "lil_endian surf")
      case True
      then show ?thesis using 4 inc d rgb
        by (simp add: set_at_def pixel_holds_def Let_def)
    next
      case False
      then show ?thesis using 4 inc d rgb
        by (simp add: set_at_def pixel_holds_def Let_def)
    qed
  qed
qed

lemma pixel_holds_cong:
  assumes fo: "format_ok (format s)" and g: "same_geometry s s'"
    and eq: "\<And>a. a \<in> pixel_bytes s x y \<Longrightarrow> pixels s' a = pixels s a"
    and h: "pixel_holds s x y c"
  shows "pixel_holds s' x y c"
proof -
  have sel: "format s' = format s" "pitch s' = pitch s" "lil_endian s' = lil_endian s"
    using same_geometry_sel[OF g] by auto
  consider "BytesPerPixel (format s) = 1" | "BytesPerPixel (format s) = 2"
    | "BytesPerPixel (format s) = 4" | "BytesPerPixel (format s) = 3"
    using fo by (auto simp: format_ok_def)
  then show ?thesis
  proof cases
    case 1
    have "pixels s' (y * pitch s + x) = pixels s (y * pitch s + x)"
      by (rule eq) (simp add: pixel_bytes_def 1)
    then show ?thesis using h 1 by (simp add: pixel_holds_def Let_def sel)
  next
    case 2
    have "pixels s' (y * pitch s + 2 * x) = pixels s (y * pitch s + 2 * x)"
      "pixels s' (y * pitch s + 2 * x + 1) = pixels s (y * pitch s + 2 * x + 1)"
      by (rule eq, simp add: pixel_bytes_def 2)+
    then show ?thesis using h 2 by (simp add: pixel_holds_def Let_def sel)
  next
    case 3
    have "pixels s' (y * pitch s + 4 * x) = pixels s (y * pitch s + 4 * x)"
      "pixels s' (y * pitch s + 4 * x + 1) = pixels s (y * pitch s + 4 * x + 1)"
      "pixels s' (y * pitch s + 4 * x + 2) = pixels s (y * pitch s + 4 * x + 2)"
      "pixels s' (y * pitch s + 4 * x + 3) = pixels s (y * pitch s + 4 * x + 3)"
      by (rule eq, simp add: pixel_bytes_def 3)+
    then have "load_Uint32 (lil_endian s) (pixels s') (y * pitch s + 4 * x)
             = load_Uint32 (lil_endian s) (pixels s) (y * pitch s + 4 * x)"
      by (simp add: load_Uint32_def)
    then show ?thesis using h 3 by (simp add: pixel_holds_def Let_def sel)
  next
    case 4
    have sh: "Rshift (format s) div 8 < 3" "Gshift (format s) div 8 < 3"
       "Bshift (format s) div 8 < 3"
      using fo 4 by (auto simp: format_ok_def)
    have e: "\<And>k. 0 \<le> k \<Longrightarrow> k < 3 \<Longrightarrow> pixels s' (y * pitch s + x * 3 + k) = pixels s (y * pitch s + x * 3 + k)"
      by (rule eq) (simp add: pixel_bytes_def 4)
    have "pixels s' (y * pitch s + x * 3 + int (Rshift (format s) div 8)) = pixels s (y * pitch s + x * 3 + int (Rshift (format s) div 8))"
      "pixels s' (y * pitch s + x * 3 + int (Gshift (format s) div 8)) = pixels s (y * pitch s + x * 3 + int (Gshift (format s) div 8))"
      "pixels s' (y * pitch s + x * 3 + int (Bshift (format s) div 8)) = pixels s (y * pitch s + x * 3 + int (Bshift (format s) div 8))"
      using e[of "int (Rshift (format s) div 8)"] e[of "int (Gshift (format s) div 8)"]
        e[of "int (Bshift (format s) div 8)"] sh by simp_all
    moreover have 
      "pixels s' (y * pitch s + x * 3 + 2 - int (Rshift (format s) div 8)) = pixels s (y * pitch s + x * 3 + 2 - int (Rshift (format s) div 8))"
      "pixels s' (y * pitch s + x * 3 + 2 - int (Gshift (format s) div 8)) = pixels s (y * pitch s + x * 3 + 2 - int (Gshift (format s) div 8))"
      "pixels s' (y * pitch s + x * 3 + 2 - int (Bshift (format s) div 8)) = pixels s (y * pitch s + x * 3 + 2 - int (Bshift (format s) div 8))"
      using e[of "2 - int (Rshift (format s) div 8)"] e[of "2 - int (Gshift (format s) div 8)"]
        e[of "2 - int (Bshift (format s) div 8)"] sh by (simp_all add: algebra_simps)
    ultimately show ?thesis using h 4
      by (simp add: pixel_holds_def Let_def sel split: prod.splits)
  qed
qed

lemma pixel_bytes_disjoint:
  assumes ok: "surface_ok surf"
    and p: "\<not> outside_clip surf x y" and q: "\<not> outside_clip surf x' y'"
    and ne: "(x, y) \<noteq> (x', y')"
  shows "pixel_bytes surf x y \<inter> pixel_bytes surf x' y' = {}"
proof -
  define bpp where "bpp = BytesPerPixel (format surf)"
  define w where "w = surf_w surf"
  define pt where "pt = pitch surf"
  have b1: "1 \<le> bpp" using ok by (auto simp: surface_ok_def format_ok_def bpp_def)
  have wp: "w * bpp \<le> pt" using ok by (simp add: surface_ok_def bpp_def w_def pt_def)
  have xr: "0 \<le> x" "x < w" "0 \<le> x'" "x' < w"
    using ok p q by (auto simp: surface_ok_def clip_ok_def outside_clip_def w_def)
  have xb: "x * bpp + bpp \<le> w * bpp" "x' * bpp + bpp \<le> w * bpp"
  proof -
    have "(x + 1) * bpp \<le> w * bpp" using xr b1 by (intro mult_right_mono) auto
    then show "x * bpp + bpp \<le> w * bpp" by (simp add: algebra_simps)
    have "(x' + 1) * bpp \<le> w * bpp" using xr b1 by (intro mult_right_mono) auto
    then show "x' * bpp + bpp \<le> w * bpp" by (simp add: algebra_simps)
  qed
  have x0: "0 \<le> x * bpp" "0 \<le> x' * bpp" using xr b1 by simp_all
  have pt0: "0 \<le> pt" using wp xb x0 b1 by linarith
  have rows: "\<And>u v. u < v \<Longrightarrow> u * pt + pt \<le> v * pt"
  proof -
    fix u v :: int assume "u < v"
    then have "(u + 1) * pt \<le> v * pt" using pt0 by (intro mult_right_mono) auto
    then show "u * pt + pt \<le> v * pt" by (simp add: algebra_simps)
  qed
  have cols: "\<And>u v. u < v \<Longrightarrow> u * bpp + bpp \<le> v * bpp"
  proof -
    fix u v :: int assume "u < v"
    then have "(u + 1) * bpp \<le> v * bpp" using b1 by (intro mult_right_mono) auto
    then show "u * bpp + bpp \<le> v * bpp" by (simp add: algebra_simps)
  qed
  consider "y < y'" | "y' < y" | "y = y'" "x < x'" | "y = y'" "x' < x"
    using ne by force
  then have "y * pt + x * bpp + bpp \<le> y' * pt + x' * bpp \<or> y' * pt + x' * bpp + bpp \<le> y * pt + x * bpp"
  proof cases
    case 1
    then show ?thesis using rows[of y y'] xb x0 wp by linarith
  next
    case 2
    then show ?thesis using rows[of y' y] xb x0 wp by linarith
  next
    case 3
    then show ?thesis using cols[of x x'] by simp
  next
    case 4
    then show ?thesis using cols[of x' x] by simp
  qed
  then show ?thesis
    unfolding pixel_bytes_def bpp_def[symmetric] pt_def[symmetric] by auto
qed

lemma set_at_seq_geometry: "same_geometry surf (fst (set_at_seq reqs (surf, da)))"
proof (induction reqs arbitrary: surf da)
  case Nil
  then show ?case by (simp add: set_at_seq_Nil same_geometry_def)
next
  case (Cons r reqs)
  obtain x y c where r: "r = (x, y, c)" by (cases r)
  obtain rv s1 d1 where st: "set_at surf x y c da = (rv, s1, d1)"
    by (cases "set_at surf x y c da")
  have g: "same_geometry surf s1" using set_at_geometry[of surf x y c da] st by simp
  have "same_geometry s1 (fst (set_at_seq reqs (s1, d1)))" by (rule Cons.IH)
  then have "same_geometry surf (fst (set_at_seq reqs (s1, d1)))"
    using g same_geometry_trans by blast
  then show ?case by (simp add: r set_at_seq_Cons st)
qed

lemma set_at_seq_written_frame:
  assumes "format_ok (format surf)"
    and "\<forall>p \<in> set (written surf reqs). b \<notin> pixel_bytes surf (fst p) (snd p)"
  shows "pixels (fst (set_at_seq reqs (surf, da))) b = pixels surf b"
  using assms
proof (induction reqs arbitrary: surf da)
  case Nil
  then show ?case by (simp add: set_at_seq_Nil)
next
  case (Cons r reqs)
  obtain x y c where r: "r = (x, y, c)" by (cases r)
  obtain rv s1 d1 where st: "set_at surf x y c da = (rv, s1, d1)"
    by (cases "set_at surf x y c da")
  have g: "same_geometry surf s1" using set_at_geometry[of surf x y c da] st by simp
  have "outside_clip surf x y \<or> b \<notin> pixel_bytes surf x y"
    using Cons.prems(2) by (auto simp add: r written_Cons)
  then have p1: "pixels s1 b = pixels surf b"
    using set_at_frame[of surf x y b c da] Cons.prems(1) st by auto
  have sel: "format s1 = format surf" "pitch s1 = pitch surf"
    using same_geometry_sel[OF g] by auto
  have pb: "\<And>x y. pixel_bytes s1 x y = pixel_bytes surf x y"
    by (simp add: pixel_bytes_def sel)
  have w: "set (written surf reqs) \<subseteq> set (written surf (r # reqs))"
    by (auto simp add: r written_Cons)
  have ih: "pixels (fst (set_at_seq reqs (s1, d1))) b = pixels s1 b"
  proof (rule Cons.IH)
    show "format_ok (format s1)" using Cons.prems(1) sel by simp
    show "\<forall>p \<in> set (written s1 reqs). b \<notin> pixel_bytes s1 (fst p) (snd p)"
      using Cons.prems(2) w unfolding written_geometry[OF g] pb by blast
  qed
  show ?case using ih p1 by (simp add: r set_at_seq_Cons st)
qed

lemma set_at_seq_holds:
  assumes ok: "surface_ok surf"
    and sp: "reqs = pre @ (x, y, c) # post"
    and inc: "\<not> outside_clip surf x y"
    and la: "(x, y) \<notin> set (written surf post)"
  shows "pixel_holds (fst (set_at_seq reqs (surf, da))) x y c"
proof -
  obtain s1 d1 where a: "set_at_seq pre (surf, da) = (s1, d1)"
    by (cases "set_at_seq pre (surf, da)")
  have g1: "same_geometry surf s1" using set_at_seq_geometry[of surf pre da] a by simp
  obtain rv s2 d2 where b: "set_at s1 x y c d1 = (rv, s2, d2)"
    by (cases "set_at s1 x y c d1")
  have g2: "same_geometry s1 s2" using set_at_geometry[of s1 x y c d1] b by simp
  have g12: "same_geometry surf s2" using g1 g2 same_geometry_trans by blast
  have sel1: "format s1 = format surf" "pitch s1 = pitch surf" "clip_rect s1 = clip_rect surf"
    "surf_w s1 = surf_w surf" "surf_h s1 = surf_h surf"
    using same_geometry_sel[OF g1] by auto
  have sel2: "format s2 = format surf" "pitch s2 = pitch surf" "clip_rect s2 = clip_rect surf"
    "surf_w s2 = surf_w surf" "surf_h s2 = surf_h surf"
    using same_geometry_sel[OF g12] by auto
  have ok1: "surface_ok s1" using ok by (simp add: surface_ok_def clip_ok_def sel1)
  have ok2: "surface_ok s2" using ok by (simp add: surface_ok_def clip_ok_def sel2)
  have inc1: "\<not> outside_clip s1 x y" using inc same_geometry_clip[OF g1] by simp
  have inc2: "\<not> outside_clip s2 x y" using inc same_geometry_clip[OF g12] by simp
  have h2: "pixel_holds s2 x y c" using set_at_holds[OF ok1 inc1, of c d1] b by simp
  have fo2: "format_ok (format s2)" using ok2 by (simp add: surface_ok_def)
  define s3 where "s3 = fst (set_at_seq post (s2, d2))"
  have g3: "same_geometry s2 s3" unfolding s3_def by (rule set_at_seq_geometry)
  have fr: "\<And>a. a \<in> pixel_bytes s2 x y \<Longrightarrow> pixels s3 a = pixels s2 a"
  proof -
    fix a assume a: "a \<in> pixel_bytes s2 x y"
    have "\<forall>p \<in> set (written s2 post). a \<notin> pixel_bytes s2 (fst p) (snd p)"
    proof
      fix p assume p: "p \<in> set (written s2 post)"
      then have pin: "\<not> outside_clip s2 (fst p) (snd p)"
        using written_in_clip[of "fst p" "snd p" s2 post] by simp
      have "p \<noteq> (x, y)" using p la written_geometry[OF g12, of post] by auto
      then have "(x, y) \<noteq> (fst p, snd p)" by auto
      then have "pixel_bytes s2 x y \<inter> pixel_bytes s2 (fst p) (snd p) = {}"
        using pixel_bytes_disjoint[OF ok2 inc2 pin] by simp
      then show "a \<notin> pixel_bytes s2 (fst p) (snd p)" using a by auto
    qed
    then show "pixels s3 a = pixels s2 a"
      unfolding s3_def using set_at_seq_written_frame[OF fo2] by blast
  qed
  have h3: "pixel_holds s3 x y c" by (rule pixel_holds_cong[OF fo2 g3 fr h2])
  have "set_at_seq reqs (surf, da) = set_at_seq post (s2, d2)"
    unfolding sp set_at_seq_append a by (simp add: set_at_seq_Cons b)
  then show ?thesis using h3 by (simp add: s3_def)
qed

subsection \<open>The bounding box\<close>

lemma bounding_box_of_written:
  assumes ok: "clip_ok surf"
  shows "case return_rect (snd (set_at_seq reqs (surf, drawn_area_init))) ax ay of
           (rx, ry, rw, rh) \<Rightarrow>
             (written surf reqs = [] \<longrightarrow> (rx, ry, rw, rh) = (ax, ay, 0, 0)) \<and>
             (written surf reqs \<noteq> [] \<longrightarrow>
                rx = Min (fst ` set (written surf reqs)) \<and>
                ry = Min (snd ` set (written surf reqs)) \<and>
                rw = Max (fst ` set (written surf reqs)) - Min (fst ` set (written surf reqs)) + 1 \<and>
                rh = Max (snd ` set (written surf reqs)) - Min (snd ` set (written surf reqs)) + 1 \<and>
                (\<forall>p \<in> set (written surf reqs).
                   rx \<le> fst p \<and> fst p < rx + rw \<and> ry \<le> snd p \<and> snd p < ry + rh) \<and>
                (\<exists>p \<in> set (written surf reqs). fst p = rx) \<and>
                (\<exists>p \<in> set (written surf reqs). fst p = rx + rw - 1) \<and>
                (\<exists>p \<in> set (written surf reqs). snd p = ry) \<and>
                (\<exists>p \<in> set (written surf reqs). snd p = ry + rh - 1))"
proof (cases "written surf reqs = []")
  case True
  then have "snd (set_at_seq reqs (surf, drawn_area_init)) = drawn_area_init"
    by (simp add: set_at_seq_drawn_area)
  then show ?thesis using True by (simp add: return_rect_def drawn_area_init_def)
next
  case False
  define W where "W = written surf reqs"
  obtain d0 d1 d2 d3 where da: "snd (set_at_seq reqs (surf, drawn_area_init)) = (d0, d1, d2, d3)"
    by (cases "snd (set_at_seq reqs (surf, drawn_area_init))")
  then have f: "fold (\<lambda>(x, y). add_pixel_to_drawn_list x y) W (INT_MAX, INT_MAX, INT_MIN, INT_MIN)
                  = (d0, d1, d2, d3)"
    by (simp add: set_at_seq_drawn_area W_def drawn_area_init_def)
  note b = fold_add_pixel[OF f]
  have rng: "\<And>p. p \<in> set W \<Longrightarrow> INT_MIN < fst p \<and> fst p < INT_MAX \<and> INT_MIN < snd p \<and> snd p < INT_MAX"
  proof -
    fix p assume "p \<in> set W"
    then have "\<not> outside_clip surf (fst p) (snd p)"
      using written_in_clip[of "fst p" "snd p" surf reqs] by (simp add: W_def)
    then show "INT_MIN < fst p \<and> fst p < INT_MAX \<and> INT_MIN < snd p \<and> snd p < INT_MAX"
      using clip_ok_range[OF ok] by blast
  qed
  from False obtain q where q: "q \<in> set W" by (cases W) (auto simp: W_def)
  from b have lo0: "\<forall>p \<in> set W. d0 \<le> fst p" and in0: "d0 = INT_MAX \<or> (\<exists>p \<in> set W. d0 = fst p)"
    and lo1: "\<forall>p \<in> set W. d1 \<le> snd p" and in1: "d1 = INT_MAX \<or> (\<exists>p \<in> set W. d1 = snd p)"
    and hi2: "\<forall>p \<in> set W. fst p \<le> d2" and in2: "d2 = INT_MIN \<or> (\<exists>p \<in> set W. d2 = fst p)"
    and hi3: "\<forall>p \<in> set W. snd p \<le> d3" and in3: "d3 = INT_MIN \<or> (\<exists>p \<in> set W. d3 = snd p)"
    by simp_all
  have q0: "d0 \<le> fst q" "d1 \<le> snd q" "fst q \<le> d2" "snd q \<le> d3"
    using lo0 lo1 hi2 hi3 q by simp_all
  have n0: "d0 \<noteq> INT_MAX" using q0 rng[OF q] by linarith
  have n1: "d1 \<noteq> INT_MAX" using q0 rng[OF q] by linarith
  have n2: "d2 \<noteq> INT_MIN" using q0 rng[OF q] by linarith
  have n3: "d3 \<noteq> INT_MIN" using q0 rng[OF q] by linarith
  have e0: "\<exists>p \<in> set W. fst p = d0" using in0 n0 by auto
  have e1: "\<exists>p \<in> set W. snd p = d1" using in1 n1 by auto
  have e2: "\<exists>p \<in> set W. fst p = d2" using in2 n2 by auto
  have e3: "\<exists>p \<in> set W. snd p = d3" using in3 n3 by auto
  have M0: "Min (fst ` set W) = d0"
  proof (rule Min_eqI)
    show "finite (fst ` set W)" by simp
    show "\<And>v. v \<in> fst ` set W \<Longrightarrow> d0 \<le> v" using lo0 by auto
    show "d0 \<in> fst ` set W" using e0 by force
  qed
  have M1: "Min (snd ` set W) = d1"
  proof (rule Min_eqI)
    show "finite (snd ` set W)" by simp
    show "\<And>v. v \<in> snd ` set W \<Longrightarrow> d1 \<le> v" using lo1 by auto
    show "d1 \<in> snd ` set W" using e1 by force
  qed
  have M2: "Max (fst ` set W) = d2"
  proof (rule Max_eqI)
    show "finite (fst ` set W)" by simp
    show "\<And>v. v \<in> fst ` set W \<Longrightarrow> v \<le> d2" using hi2 by auto
    show "d2 \<in> fst ` set W" using e2 by force
  qed
  have M3: "Max (snd ` set W) = d3"
  proof (rule Max_eqI)
    show "finite (snd ` set W)" by simp
    show "\<And>v. v \<in> snd ` set W \<Longrightarrow> v \<le> d3" using hi3 by auto
    show "d3 \<in> snd ` set W" using e3 by force
  qed
  have rr: "return_rect (d0, d1, d2, d3) ax ay = (d0, d1, d2 - d0 + 1, d3 - d1 + 1)"
    using n0 n1 n2 n3 by (simp add: return_rect_def)
  have inside: "\<forall>p \<in> set W. d0 \<le> fst p \<and> fst p < d0 + (d2 - d0 + 1) \<and>
                   d1 \<le> snd p \<and> snd p < d1 + (d3 - d1 + 1)"
    using lo0 lo1 hi2 hi3 by auto
  have e2': "\<exists>p \<in> set W. fst p = d0 + (d2 - d0 + 1) - 1" using e2 by simp
  have e3': "\<exists>p \<in> set W. snd p = d1 + (d3 - d1 + 1) - 1" using e3 by simp
  have ne: "written surf reqs \<noteq> []" using False .
  show ?thesis
    unfolding da rr
    using ne M0 M1 M2 M3 inside e0 e1 e2' e3' unfolding W_def
    by (simp only: prod.case) blast
qed



text \<open>
  C2. The returned rectangle is the bounding box of the pixels written. On a surface as
  SDL makes it, and whatever sequence of \<^verbatim>\<open>set_at\<close> calls the primitive makes from the
  initial bounding box, the pixels written are the requests inside the clip rectangle
  (\<open>written\<close>): each of them holds, when the primitive returns, the color of the last
  request that named it, and no byte outside these pixels has changed. When there is no
  such pixel the returned rectangle is the zero-size rectangle at the anchor; otherwise
  it is (min x, min y, max x - min x + 1, max y - min y + 1) over these pixels, every one
  of them lies inside it, and each of its four border rows and columns holds one.
\<close>

theorem bounding_box:
  assumes ok: "surface_ok surf"
  shows "(case return_rect (snd (set_at_seq reqs (surf, drawn_area_init))) ax ay of
           (rx, ry, rw, rh) \<Rightarrow>
             (written surf reqs = [] \<longrightarrow> (rx, ry, rw, rh) = (ax, ay, 0, 0)) \<and>
             (written surf reqs \<noteq> [] \<longrightarrow>
                rx = Min (fst ` set (written surf reqs)) \<and>
                ry = Min (snd ` set (written surf reqs)) \<and>
                rw = Max (fst ` set (written surf reqs)) - Min (fst ` set (written surf reqs)) + 1 \<and>
                rh = Max (snd ` set (written surf reqs)) - Min (snd ` set (written surf reqs)) + 1 \<and>
                (\<forall>p \<in> set (written surf reqs).
                   rx \<le> fst p \<and> fst p < rx + rw \<and> ry \<le> snd p \<and> snd p < ry + rh) \<and>
                (\<exists>p \<in> set (written surf reqs). fst p = rx) \<and>
                (\<exists>p \<in> set (written surf reqs). fst p = rx + rw - 1) \<and>
                (\<exists>p \<in> set (written surf reqs). snd p = ry) \<and>
                (\<exists>p \<in> set (written surf reqs). snd p = ry + rh - 1))) \<and>
         (\<forall>pre x y c post.
            reqs = pre @ (x, y, c) # post \<and> \<not> outside_clip surf x y \<and>
            (x, y) \<notin> set (written surf post)
            \<longrightarrow> pixel_holds (fst (set_at_seq reqs (surf, drawn_area_init))) x y c) \<and>
         (\<forall>b. (\<forall>p \<in> set (written surf reqs). b \<notin> pixel_bytes surf (fst p) (snd p))
            \<longrightarrow> pixels (fst (set_at_seq reqs (surf, drawn_area_init))) b = pixels surf b)"
proof (intro conjI allI impI)
  have c: "clip_ok surf" using ok by (simp add: surface_ok_def)
  show "case return_rect (snd (set_at_seq reqs (surf, drawn_area_init))) ax ay of
           (rx, ry, rw, rh) \<Rightarrow>
             (written surf reqs = [] \<longrightarrow> (rx, ry, rw, rh) = (ax, ay, 0, 0)) \<and>
             (written surf reqs \<noteq> [] \<longrightarrow>
                rx = Min (fst ` set (written surf reqs)) \<and>
                ry = Min (snd ` set (written surf reqs)) \<and>
                rw = Max (fst ` set (written surf reqs)) - Min (fst ` set (written surf reqs)) + 1 \<and>
                rh = Max (snd ` set (written surf reqs)) - Min (snd ` set (written surf reqs)) + 1 \<and>
                (\<forall>p \<in> set (written surf reqs).
                   rx \<le> fst p \<and> fst p < rx + rw \<and> ry \<le> snd p \<and> snd p < ry + rh) \<and>
                (\<exists>p \<in> set (written surf reqs). fst p = rx) \<and>
                (\<exists>p \<in> set (written surf reqs). fst p = rx + rw - 1) \<and>
                (\<exists>p \<in> set (written surf reqs). snd p = ry) \<and>
                (\<exists>p \<in> set (written surf reqs). snd p = ry + rh - 1))"
    by (rule bounding_box_of_written[OF c])
next
  fix pre x y c post
  assume h: "reqs = pre @ (x, y, c) # post \<and> \<not> outside_clip surf x y \<and>
            (x, y) \<notin> set (written surf post)"
  show "pixel_holds (fst (set_at_seq reqs (surf, drawn_area_init))) x y c"
    by (rule set_at_seq_holds[OF ok, of reqs pre x y c post]) (use h in simp_all)
next
  fix b
  assume h: "\<forall>p \<in> set (written surf reqs). b \<notin> pixel_bytes surf (fst p) (snd p)"
  have fo: "format_ok (format surf)" using ok by (simp add: surface_ok_def)
  show "pixels (fst (set_at_seq reqs (surf, drawn_area_init))) b = pixels surf b"
    by (rule set_at_seq_written_frame[OF fo h])
qed

lemma blank_surface_ok: "0 \<le> w \<Longrightarrow> w \<le> INT_MAX \<Longrightarrow> 0 \<le> h \<Longrightarrow> h \<le> INT_MAX \<Longrightarrow> surface_ok (blank_surface w h)"
  by (simp add: surface_ok_def clip_ok_def format_ok_def blank_surface_def rgba8888_def)

theorem bounding_box_witness:
  "surface_ok (blank_surface 4 4) \<and>
   written (blank_surface 4 4) [(1, 2, 7), (9, 9, 7), (3, 1, 7)] = [(1, 2), (3, 1)] \<and>
   return_rect (snd (set_at_seq [(1, 2, 7), (9, 9, 7), (3, 1, 7)]
                  (blank_surface 4 4, drawn_area_init))) 0 0 = (1, 1, 3, 2) \<and>
   pixel_holds (fst (set_at_seq [(1, 2, 7), (9, 9, 7), (3, 1, 7)]
                  (blank_surface 4 4, drawn_area_init))) 1 2 7 \<and>
   load_Uint32 True (pixels (fst (set_at_seq [(1, 2, 7), (9, 9, 7), (3, 1, 7)]
                  (blank_surface 4 4, drawn_area_init)))) (2 * 16 + 4 * 1) = 7 \<and>
   pixels (fst (set_at_seq [(1, 2, 7), (9, 9, 7), (3, 1, 7)]
                  (blank_surface 4 4, drawn_area_init))) 0 = pixels (blank_surface 4 4) 0"
proof -
  let ?reqs = "[(1, 2, 7), (9, 9, 7), (3, 1, 7)] :: (int \<times> int \<times> Uint32) list"
  let ?s = "fst (set_at_seq ?reqs (blank_surface 4 4, drawn_area_init))"
  have c: "surface_ok (blank_surface 4 4)"
    by (rule blank_surface_ok) (simp_all add: INT_MAX_def)
  note t = bounding_box[OF c, of ?reqs 0 0]
  have w: "written (blank_surface 4 4) ?reqs = [(1, 2), (3, 1)]"
    by (simp add: written_def outside_clip_def blank_surface_def)
  have w2: "written (blank_surface 4 4) [(9, 9, 7), (3, 1, 7)] = [(3, 1)]"
    by (simp add: written_def outside_clip_def blank_surface_def)
  have i: "\<not> outside_clip (blank_surface 4 4) 1 2"
    by (simp add: outside_clip_def blank_surface_def)
  obtain rx ry rw rh where
    r: "return_rect (snd (set_at_seq ?reqs (blank_surface 4 4, drawn_area_init))) 0 0 = (rx, ry, rw, rh)"
    by (cases "return_rect (snd (set_at_seq ?reqs (blank_surface 4 4, drawn_area_init))) 0 0")
  have R: "(rx, ry, rw, rh) = (1, 1, 3, 2)"
    using conjunct1[OF t] unfolding r w by simp
  have "?reqs = [] @ (1, 2, 7) # [(9, 9, 7), (3, 1, 7)] \<and> \<not> outside_clip (blank_surface 4 4) 1 2 \<and>
         (1, 2) \<notin> set (written (blank_surface 4 4) [(9, 9, 7), (3, 1, 7)])"
    using i w2 by simp
  then have H: "pixel_holds ?s 1 2 7"
    using conjunct1[OF conjunct2[OF t]] by blast
  have g: "same_geometry (blank_surface 4 4) ?s" by (rule set_at_seq_geometry)
  have sel: "format ?s = rgba8888" "pitch ?s = 16" "lil_endian ?s = True"
    using same_geometry_sel[OF g] by (simp_all add: blank_surface_def)
  have L: "load_Uint32 True (pixels ?s) (2 * 16 + 4 * 1) = 7"
    using H unfolding pixel_holds_def Let_def sel by (simp add: rgba8888_def)
  have "\<forall>p \<in> set (written (blank_surface 4 4) ?reqs).
          0 \<notin> pixel_bytes (blank_surface 4 4) (fst p) (snd p)"
    unfolding w by (simp add: pixel_bytes_def blank_surface_def rgba8888_def)
  then have Z: "pixels ?s 0 = pixels (blank_surface 4 4) 0"
    using conjunct2[OF conjunct2[OF t]] by blast
  show ?thesis using c w r R H L Z by simp
qed

section \<open>Machine integers\<close>

lemma wrap_int_id: "int_range v \<Longrightarrow> wrap_int v = v"
  by (simp add: wrap_int_def int_range_def INT_MIN_def INT_MAX_def)

lemma wrap_int_range: "int_range (wrap_int v)"
proof -
  have "0 \<le> (v + 2147483648) mod 4294967296" "(v + 2147483648) mod 4294967296 < 4294967296"
    by simp_all
  then show ?thesis by (simp add: wrap_int_def int_range_def INT_MIN_def INT_MAX_def)
qed

lemma wrap_int_add_left: "wrap_int (wrap_int a + b) = wrap_int (a + b)"
proof -
  have "(wrap_int a + b + 2147483648) mod 4294967296
        = ((a + 2147483648) mod 4294967296 + b) mod 4294967296"
    by (simp add: wrap_int_def algebra_simps)
  also have "\<dots> = (a + 2147483648 + b) mod 4294967296" by (rule mod_add_left_eq)
  finally show ?thesis by (simp add: wrap_int_def algebra_simps)
qed

lemma c_add_id: "int_range (a + b) \<Longrightarrow> c_add a b = a + b"
  by (simp add: c_add_def wrap_int_id)

lemma c_sub_id: "int_range (a - b) \<Longrightarrow> c_sub a b = a - b"
  by (simp add: c_sub_def wrap_int_id)

lemma c_mul_id: "int_range (a * b) \<Longrightarrow> c_mul a b = a * b"
  by (simp add: c_mul_def wrap_int_id)

lemma c_neg_id: "int_range (- a) \<Longrightarrow> c_neg a = - a"
  by (simp add: c_neg_def wrap_int_id)

lemma c_abs_id: "int_range \<bar>a\<bar> \<Longrightarrow> c_abs a = \<bar>a\<bar>"
  by (simp add: c_abs_def wrap_int_id)

lemma c_sub_add: "int_range (a - b + c) \<Longrightarrow> c_add (c_sub a b) c = a - b + c"
  by (simp add: c_add_def c_sub_def wrap_int_add_left wrap_int_id)

lemma int_range_between:
  "int_range a \<Longrightarrow> int_range b \<Longrightarrow> (a \<le> v \<and> v \<le> b) \<or> (b \<le> v \<and> v \<le> a) \<Longrightarrow> int_range v"
  by (auto simp add: int_range_def)

section \<open>Lines\<close>

lemma draw_line_loop_step:
  "x1 \<noteq> x2 \<or> y1 \<noteq> y2 \<Longrightarrow>
   draw_line_loop dx dy sx sy x2 y2 x1 y1 e =
     do { ps \<leftarrow> draw_line_loop dx dy sx sy x2 y2
                  (if e > c_neg dx then c_add x1 sx else x1) (if e < dy then c_add y1 sy else y1)
                  (if e < dy then c_add (if e > c_neg dx then c_sub e dy else e) dx
                   else (if e > c_neg dx then c_sub e dy else e));
          Some ((x1, y1) # ps) }"
  by (subst draw_line_loop.simps) (simp add: Let_def)

lemma draw_line_loop_done: "draw_line_loop dx dy sx sy x2 y2 x2 y2 e = Some []"
  by (subst draw_line_loop.simps) simp

lemma mult_small_zero:
  fixes r d e :: int
  assumes "0 \<le> e" "e < d" "0 \<le> e + r * d" "e + r * d < d"
  shows "r = 0"
proof (rule ccontr)
  assume "r \<noteq> 0"
  then consider "r \<ge> 1" | "r \<le> - 1" by linarith
  then show False
  proof cases
    case 1
    have "d > 0" using assms by linarith
    then have "r * d \<ge> 1 * d" using 1 by (intro mult_right_mono) auto
    with assms show False by linarith
  next
    case 2
    have "d > 0" using assms by linarith
    then have "r * d \<le> (- 1) * d" using 2 by (intro mult_right_mono) auto
    with assms show False by linarith
  qed
qed

lemma step_between:
  fixes x s :: int
  assumes "s = 1 \<or> s = - 1" "0 < k" "x2 = x + s * k"
  shows "(x \<le> x + s \<and> x + s \<le> x2) \<or> (x2 \<le> x + s \<and> x + s \<le> x)"
  using assms by auto

lemma loop_walk_x:
  assumes "0 \<le> dy" "dy < dx" "sx = 1 \<or> sx = - 1" "sy = 1 \<or> sy = - 1"
    and "0 \<le> e" "e < dx"
    and "x2 = x + sx * int n" "y2 = y + sy * r"
    and "0 \<le> e - int n * dy + r * dx" "e - int n * dy + r * dx < dx"
    and "dx \<le> INT_MAX" "int_range x" "int_range y" "int_range x2" "int_range y2"
  shows "draw_line_loop dx dy sx sy x2 y2 x y e = Some (line_walk n dx dy sx sy x y e)"
  using assms
proof (induction n arbitrary: x y e r)
  case 0
  then have "r = 0" using mult_small_zero[of e dx r] by simp
  with 0 show ?case by (simp add: draw_line_loop_done)
next
  case (Suc n)
  have ne: "x \<noteq> x2" using Suc.prems by auto
  have nd: "c_neg dx = - dx"
    using Suc.prems by (intro c_neg_id) (simp add: int_range_def INT_MIN_def INT_MAX_def)
  have xs: "e > - dx" using Suc.prems by linarith
  let ?y' = "if e < dy then y + sy else y"
  let ?e' = "(e - dy) + (if e < dy then dx else 0)"
  let ?r' = "if e < dy then r - 1 else r"
  have er: "int_range ?e'" using Suc.prems by (auto simp add: int_range_def INT_MIN_def INT_MAX_def)
  have ce: "(if e < dy then c_add (c_sub e dy) dx else c_sub e dy) = ?e'"
  proof (cases "e < dy")
    case True
    then show ?thesis using er c_sub_add[of e dy dx] by simp
  next
    case False
    then show ?thesis using er c_sub_id[of e dy] by simp
  qed
  have xr: "int_range (x + sx)"
  proof (rule int_range_between[OF Suc.prems(12) Suc.prems(14)])
    show "(x \<le> x + sx \<and> x + sx \<le> x2) \<or> (x2 \<le> x + sx \<and> x + sx \<le> x)"
      by (rule step_between[of sx "int (Suc n)"]) (use Suc.prems in auto)
  qed
  have cx: "c_add x sx = x + sx" by (rule c_add_id[OF xr])
  have rpos: "0 < r" if lt: "e < dy"
  proof (rule ccontr)
    assume "\<not> 0 < r"
    then have "r \<le> 0" by simp
    moreover have "0 < dx" using Suc.prems by linarith
    ultimately have "r * dx \<le> 0" by (simp add: mult_le_0_iff)
    moreover have "int (Suc n) * dy \<ge> 1 * dy" using Suc.prems(1) by (intro mult_right_mono) auto
    ultimately show False using Suc.prems(9) lt by linarith
  qed
  have yr: "int_range ?y'"
  proof (cases "e < dy")
    case True
    have "int_range (y + sy)"
    proof (rule int_range_between[OF Suc.prems(13) Suc.prems(15)])
      show "(y \<le> y + sy \<and> y + sy \<le> y2) \<or> (y2 \<le> y + sy \<and> y + sy \<le> y)"
        by (rule step_between[of sy r]) (use Suc.prems rpos[OF True] in auto)
    qed
    then show ?thesis using True by simp
  next
    case False
    then show ?thesis using Suc.prems by simp
  qed
  have cy: "(if e < dy then c_add y sy else y) = ?y'"
    using yr c_add_id[of y sy] by auto
  have ih: "draw_line_loop dx dy sx sy x2 y2 (x + sx) ?y' ?e' = Some (line_walk n dx dy sx sy (x + sx) ?y' ?e')"
  proof (rule Suc.IH[where r = ?r'])
    show "0 \<le> dy" "dy < dx" "sx = 1 \<or> sx = - 1" "sy = 1 \<or> sy = - 1" using Suc.prems by auto
    show "0 \<le> ?e'" using Suc.prems by auto
    show "?e' < dx" using Suc.prems by auto
    show "x2 = x + sx + sx * int n" using Suc.prems by (simp add: algebra_simps)
    show "y2 = ?y' + sy * ?r'" using Suc.prems by (auto simp add: algebra_simps)
    show "0 \<le> ?e' - int n * dy + ?r' * dx" using Suc.prems(9) by (auto simp add: algebra_simps)
    show "?e' - int n * dy + ?r' * dx < dx" using Suc.prems(10) by (auto simp add: algebra_simps)
    show "dx \<le> INT_MAX" "int_range x2" "int_range y2" using Suc.prems by auto
    show "int_range (x + sx)" by (rule xr)
    show "int_range ?y'" by (rule yr)
  qed
  have stp: "draw_line_loop dx dy sx sy x2 y2 x y e =
     do { ps \<leftarrow> draw_line_loop dx dy sx sy x2 y2 (x + sx) ?y' ?e'; Some ((x, y) # ps) }"
    using draw_line_loop_step[of x x2 y y2 dx dy sx sy e] ne xs
    unfolding nd by (simp only: if_True cx cy ce simp_thms)
  show ?case unfolding stp ih using xs by simp
qed


lemma loop_walk_y:
  assumes "0 < dx" "dx \<le> dy" "sx = 1 \<or> sx = - 1" "sy = 1 \<or> sy = - 1"
    and "- dy < e" "e \<le> 0"
    and "y2 = y + sy * int n" "x2 = x + sx * r"
    and "- dy < e + int n * dx - r * dy" "e + int n * dx - r * dy \<le> 0"
    and "dy \<le> INT_MAX" "int_range x" "int_range y" "int_range x2" "int_range y2"
  shows "draw_line_loop dx dy sx sy x2 y2 x y e = Some (line_walk n dx dy sx sy x y e)"
  using assms
proof (induction n arbitrary: x y e r)
  case 0
  then have "- r = 0" using mult_small_zero[of "- e" dy "r"] by simp
  with 0 show ?case by (simp add: draw_line_loop_done)
next
  case (Suc n)
  have ne: "y \<noteq> y2" using Suc.prems by auto
  have nd: "c_neg dx = - dx"
    using Suc.prems by (intro c_neg_id) (simp add: int_range_def INT_MIN_def INT_MAX_def)
  have ys: "e < dy" using Suc.prems by linarith
  let ?x' = "if e > - dx then x + sx else x"
  let ?e' = "(if e > - dx then e - dy else e) + dx"
  let ?r' = "if e > - dx then r - 1 else r"
  have er: "int_range ?e'" using Suc.prems by (auto simp add: int_range_def INT_MIN_def INT_MAX_def)
  have ce: "c_add (if e > - dx then c_sub e dy else e) dx = ?e'"
  proof (cases "e > - dx")
    case True
    then show ?thesis using er c_sub_add[of e dy dx] by simp
  next
    case False
    then show ?thesis using er c_add_id[of e dx] by simp
  qed
  have yr: "int_range (y + sy)"
  proof (rule int_range_between[OF Suc.prems(13) Suc.prems(15)])
    show "(y \<le> y + sy \<and> y + sy \<le> y2) \<or> (y2 \<le> y + sy \<and> y + sy \<le> y)"
      by (rule step_between[of sy "int (Suc n)"]) (use Suc.prems in auto)
  qed
  have cy: "c_add y sy = y + sy" by (rule c_add_id[OF yr])
  have rpos: "0 < r" if gt: "e > - dx"
  proof (rule ccontr)
    assume "\<not> 0 < r"
    then have "r \<le> 0" by simp
    moreover have "0 < dy" using Suc.prems by linarith
    ultimately have "r * dy \<le> 0" by (simp add: mult_le_0_iff)
    moreover have "int (Suc n) * dx \<ge> 1 * dx" using Suc.prems(1) by (intro mult_right_mono) auto
    ultimately show False using Suc.prems(10) gt by linarith
  qed
  have xr: "int_range ?x'"
  proof (cases "e > - dx")
    case True
    have "int_range (x + sx)"
    proof (rule int_range_between[OF Suc.prems(12) Suc.prems(14)])
      show "(x \<le> x + sx \<and> x + sx \<le> x2) \<or> (x2 \<le> x + sx \<and> x + sx \<le> x)"
        by (rule step_between[of sx r]) (use Suc.prems rpos[OF True] in auto)
    qed
    then show ?thesis using True by simp
  next
    case False
    then show ?thesis using Suc.prems by simp
  qed
  have cx: "(if e > - dx then c_add x sx else x) = ?x'"
    using xr c_add_id[of x sx] by auto
  have ih: "draw_line_loop dx dy sx sy x2 y2 ?x' (y + sy) ?e' = Some (line_walk n dx dy sx sy ?x' (y + sy) ?e')"
  proof (rule Suc.IH[where r = ?r'])
    show "0 < dx" "dx \<le> dy" "sx = 1 \<or> sx = - 1" "sy = 1 \<or> sy = - 1" using Suc.prems by auto
    show "- dy < ?e'" using Suc.prems by auto
    show "?e' \<le> 0" using Suc.prems by auto
    show "y2 = y + sy + sy * int n" using Suc.prems by (simp add: algebra_simps)
    show "x2 = ?x' + sx * ?r'" using Suc.prems by (auto simp add: algebra_simps)
    show "- dy < ?e' + int n * dx - ?r' * dy" using Suc.prems(9) by (auto simp add: algebra_simps)
    show "?e' + int n * dx - ?r' * dy \<le> 0" using Suc.prems(10) by (auto simp add: algebra_simps)
    show "dy \<le> INT_MAX" "int_range x2" "int_range y2" using Suc.prems by auto
    show "int_range (y + sy)" by (rule yr)
    show "int_range ?x'" by (rule xr)
  qed
  have stp: "draw_line_loop dx dy sx sy x2 y2 x y e =
     do { ps \<leftarrow> draw_line_loop dx dy sx sy x2 y2 ?x' (y + sy) ?e'; Some ((x, y) # ps) }"
    using draw_line_loop_step[of x x2 y y2 dx dy sx sy e] ne ys
    unfolding nd by (simp only: if_True cx cy ce simp_thms)
  show ?case unfolding stp ih using ys by simp
qed

lemma draw_line_hloop_upto:
  assumes "0 \<le> sx" "n < INT_MAX"
  shows "draw_line_hloop x1 y1 dx n sx = Some (map (\<lambda>s. (c_add x1 (c_mul dx s), y1)) [sx .. n])"
  using assms
proof (induction "nat (n + 1 - sx)" arbitrary: sx)
  case 0
  then have "\<not> sx \<le> n" by simp
  then show ?case by (subst draw_line_hloop.simps) simp
next
  case (Suc k)
  then have le: "sx \<le> n" by simp
  have "int_range (sx + 1)" using Suc.prems le by (simp add: int_range_def INT_MIN_def INT_MAX_def)
  then have c: "c_add sx 1 = sx + 1" by (rule c_add_id)
  have ih: "draw_line_hloop x1 y1 dx n (sx + 1)
              = Some (map (\<lambda>s. (c_add x1 (c_mul dx s), y1)) [sx + 1 .. n])"
    by (rule Suc.hyps(1)) (use Suc.prems Suc.hyps(2) in auto)
  have l: "[sx .. n] = sx # [sx + 1 .. n]" using le by (simp add: upto_rec1)
  show ?case
    by (subst draw_line_hloop.simps) (simp add: le c ih l)
qed

lemma draw_line_vloop_upto:
  assumes "0 \<le> sy" "n < INT_MAX"
  shows "draw_line_vloop x1 y1 dy n sy = Some (map (\<lambda>s. (x1, c_add y1 (c_mul dy s))) [sy .. n])"
  using assms
proof (induction "nat (n + 1 - sy)" arbitrary: sy)
  case 0
  then have "\<not> sy \<le> n" by simp
  then show ?case by (subst draw_line_vloop.simps) simp
next
  case (Suc k)
  then have le: "sy \<le> n" by simp
  have "int_range (sy + 1)" using Suc.prems le by (simp add: int_range_def INT_MIN_def INT_MAX_def)
  then have c: "c_add sy 1 = sy + 1" by (rule c_add_id)
  have ih: "draw_line_vloop x1 y1 dy n (sy + 1)
              = Some (map (\<lambda>s. (x1, c_add y1 (c_mul dy s))) [sy + 1 .. n])"
    by (rule Suc.hyps(1)) (use Suc.prems Suc.hyps(2) in auto)
  have l: "[sy .. n] = sy # [sy + 1 .. n]" using le by (simp add: upto_rec1)
  show ?case
    by (subst draw_line_vloop.simps) (simp add: le c ih l)
qed

lemma fits_abs:
  assumes "line_fits x1 y1 x2 y2"
  shows "c_abs (c_sub x2 x1) = \<bar>x2 - x1\<bar>" "c_abs (c_sub y2 y1) = \<bar>y2 - y1\<bar>"
    "c_abs (c_sub x1 x2) = \<bar>x2 - x1\<bar>" "c_abs (c_sub y1 y2) = \<bar>y2 - y1\<bar>"
proof -
  have a: "\<bar>x2 - x1\<bar> < INT_MAX" "\<bar>y2 - y1\<bar> < INT_MAX" using assms by (simp_all add: line_fits_def)
  have r: "\<And>v :: int. \<bar>v\<bar> < INT_MAX \<Longrightarrow> c_abs (wrap_int v) = \<bar>v\<bar>"
  proof -
    fix v :: int assume v: "\<bar>v\<bar> < INT_MAX"
    then have "int_range v" "int_range \<bar>v\<bar>" by (auto simp add: int_range_def INT_MIN_def INT_MAX_def)
    then show "c_abs (wrap_int v) = \<bar>v\<bar>" by (simp add: wrap_int_id c_abs_id)
  qed
  show "c_abs (c_sub x2 x1) = \<bar>x2 - x1\<bar>" unfolding c_sub_def using r[OF a(1)] .
  show "c_abs (c_sub y2 y1) = \<bar>y2 - y1\<bar>" unfolding c_sub_def using r[OF a(2)] .
  have b: "\<bar>x1 - x2\<bar> < INT_MAX" "\<bar>y1 - y2\<bar> < INT_MAX" using a by simp_all
  show "c_abs (c_sub x1 x2) = \<bar>x2 - x1\<bar>" unfolding c_sub_def using r[OF b(1)] by simp
  show "c_abs (c_sub y1 y2) = \<bar>y2 - y1\<bar>" unfolding c_sub_def using r[OF b(2)] by simp
qed

lemma line_fits_sym: "line_fits x2 y2 x1 y1 = line_fits x1 y1 x2 y2"
  by (auto simp add: line_fits_def)

lemma upt_Suc_shift: "map f [0..<Suc n] = f 0 # map (\<lambda>i. f (Suc i)) [0..<n]"
  by (simp add: upt_conv_Cons map_Suc_upt[symmetric] del: upt_Suc)

lemma walk_fst_x:
  assumes "0 \<le> dy" "dy < dx" "0 \<le> e" "e < dx"
  shows "map fst (line_walk n dx dy sx sy x y e) = map (\<lambda>i. x + sx * int i) [0..<n]"
  using assms
proof (induction n arbitrary: x y e)
  case 0
  then show ?case by simp
next
  case (Suc n)
  let ?y' = "if e < dy then y + sy else y"
  let ?e' = "(e - dy) + (if e < dy then dx else 0)"
  have xs: "e > - dx" using Suc.prems by linarith
  have "map fst (line_walk n dx dy sx sy (x + sx) ?y' ?e') = map (\<lambda>i. (x + sx) + sx * int i) [0..<n]"
    by (rule Suc.IH) (use Suc.prems in auto)
  then show ?case using xs
    by (simp add: upt_Suc_shift algebra_simps del: upt_Suc)
qed

lemma walk_snd_y:
  assumes "0 < dx" "dx \<le> dy" "- dy < e" "e \<le> 0"
  shows "map snd (line_walk n dx dy sx sy x y e) = map (\<lambda>i. y + sy * int i) [0..<n]"
  using assms
proof (induction n arbitrary: x y e)
  case 0
  then show ?case by simp
next
  case (Suc n)
  let ?x' = "if e > - dx then x + sx else x"
  let ?e' = "(if e > - dx then e - dy else e) + dx"
  have ys: "e < dy" using Suc.prems by linarith
  have "map snd (line_walk n dx dy sx sy ?x' (y + sy) ?e') = map (\<lambda>i. (y + sy) + sy * int i) [0..<n]"
    by (rule Suc.IH) (use Suc.prems in auto)
  then show ?case using ys
    by (simp add: upt_Suc_shift algebra_simps del: upt_Suc)
qed

lemma walk_fst_diag:
  assumes "0 < dx" "dx = dy" "- dy < e" "e \<le> 0"
  shows "map fst (line_walk n dx dy sx sy x y e) = map (\<lambda>i. x + sx * int i) [0..<n]"
  using assms
proof (induction n arbitrary: x y e)
  case 0
  then show ?case by simp
next
  case (Suc n)
  have xs: "e > - dx" and ys: "e < dy" using Suc.prems by linarith+
  have "map fst (line_walk n dx dy sx sy (x + sx) (y + sy) (e - dy + dx)) = map (\<lambda>i. (x + sx) + sx * int i) [0..<n]"
    by (rule Suc.IH) (use Suc.prems in auto)
  then show ?case using xs ys
    by (simp add: upt_Suc_shift algebra_simps del: upt_Suc)
qed

lemma walk_length: "length (line_walk n dx dy sx sy x y e) = n"
  by (induction n arbitrary: x y e) auto

lemma walk_reflect:
  "line_walk n dx dy (- sx) (- sy) (cx - x) (cy - y) e =
     map (\<lambda>(a, b). (cx - a, cy - b)) (line_walk n dx dy sx sy x y e)"
proof (induction n arbitrary: x y e)
  case 0
  then show ?case by simp
next
  case (Suc n)
  show ?case
    by (simp add: Suc.IH[symmetric] diff_diff_eq)
qed

lemma c_div_2_pos: "0 \<le> a \<Longrightarrow> c_div a 2 = a div 2"
  by (simp add: c_div_def)

lemma c_div_2_neg: "0 < a \<Longrightarrow> c_div (- a) 2 = - (a div 2)"
  by (simp add: c_div_def)


lemma draw_line_general:
  assumes "x1 \<noteq> x2" "y1 \<noteq> y2" and fits: "line_fits x1 y1 x2 y2"
  defines "dx \<equiv> \<bar>x2 - x1\<bar>" and "dy \<equiv> \<bar>y2 - y1\<bar>"
    and "sx \<equiv> (if x1 < x2 then 1 else - 1 :: int)" and "sy \<equiv> (if y1 < y2 then 1 else - 1 :: int)"
  defines "e0 \<equiv> (if dx > dy then dx div 2 else - (dy div 2))"
  shows "draw_line x1 y1 x2 y2 =
           Some (line_walk (nat (max dx dy)) dx dy sx sy x1 y1 e0 @ [(x2, y2)])"
proof -
  have pos: "0 < dx" "0 < dy" using assms by auto
  have rng: "int_range x1" "int_range y1" "int_range x2" "int_range y2"
    and small: "dx < INT_MAX" "dy < INT_MAX"
    using fits by (simp_all add: line_fits_def dx_def dy_def)
  have cdx: "c_abs (c_sub x2 x1) = dx" and cdy: "c_abs (c_sub y2 y1) = dy"
    using fits_abs[OF fits] by (simp_all add: dx_def dy_def)
  have ndy: "c_neg dy = - dy"
    using small pos by (intro c_neg_id) (simp add: int_range_def INT_MIN_def INT_MAX_def)
  have e0: "c_div (if dx > dy then dx else c_neg dy) 2 = e0"
    using pos by (simp add: e0_def ndy c_div_2_pos c_div_2_neg)
  have x2: "x2 = x1 + sx * dx" and y2: "y2 = y1 + sy * dy"
    by (auto simp add: sx_def sy_def dx_def dy_def)
  have loop: "draw_line_loop dx dy sx sy x2 y2 x1 y1 e0 =
                Some (line_walk (nat (max dx dy)) dx dy sx sy x1 y1 e0)"
  proof (cases "dx > dy")
    case True
    then have m: "int (nat (max dx dy)) = dx" using pos by simp
    have e: "0 \<le> e0" "e0 < dx" using True pos by (auto simp add: e0_def)
    show ?thesis
    proof (rule loop_walk_x[where r = dy])
      show "0 \<le> dy" "dy < dx" using pos True by auto
      show "sx = 1 \<or> sx = - 1" "sy = 1 \<or> sy = - 1" by (auto simp: sx_def sy_def)
      show "0 \<le> e0" "e0 < dx" using e by auto
      show "x2 = x1 + sx * int (nat (max dx dy))" using x2 m by simp
      show "y2 = y1 + sy * dy" by (rule y2)
      show "0 \<le> e0 - int (nat (max dx dy)) * dy + dy * dx" using e m by (simp add: algebra_simps)
      show "e0 - int (nat (max dx dy)) * dy + dy * dx < dx" using e m by (simp add: algebra_simps)
      show "dx \<le> INT_MAX" using small by simp
      show "int_range x1" "int_range y1" "int_range x2" "int_range y2" by (rule rng)+
    qed
  next
    case False
    then have m: "int (nat (max dx dy)) = dy" using pos by simp
    have e: "- dy < e0" "e0 \<le> 0" using False pos by (auto simp add: e0_def)
    show ?thesis
    proof (rule loop_walk_y[where r = dx])
      show "0 < dx" "dx \<le> dy" using pos False by auto
      show "sx = 1 \<or> sx = - 1" "sy = 1 \<or> sy = - 1" by (auto simp: sx_def sy_def)
      show "- dy < e0" "e0 \<le> 0" using e by auto
      show "y2 = y1 + sy * int (nat (max dx dy))" using y2 m by simp
      show "x2 = x1 + sx * dx" by (rule x2)
      show "- dy < e0 + int (nat (max dx dy)) * dx - dx * dy" using e m by (simp add: algebra_simps)
      show "e0 + int (nat (max dx dy)) * dx - dx * dy \<le> 0" using e m by (simp add: algebra_simps)
      show "dy \<le> INT_MAX" using small by simp
      show "int_range x1" "int_range y1" "int_range x2" "int_range y2" by (rule rng)+
    qed
  qed
  show ?thesis
    using assms(1,2) loop e0
    unfolding draw_line_def cdx cdy sx_def[symmetric] sy_def[symmetric] Let_def
    by simp
qed

lemma upto_nat: "[0 .. int n] = map int [0..<Suc n]"
proof (induction n)
  case 0
  then show ?case by (simp add: upto.simps)
next
  case (Suc n)
  have "[0 .. int (Suc n)] = [0 .. int n] @ [int (Suc n)]"
    using upto_rec2[of 0 "int (Suc n)"] by simp
  then show ?case using Suc by simp
qed

lemma distinct_by_fst:
  assumes "map fst ps = map (\<lambda>i. a + s * int i) [0..<m]" and "s \<noteq> 0"
  shows "distinct ps"
proof -
  have "inj_on (\<lambda>i. a + s * int i) (set [0..<m])" using assms(2) by (auto simp: inj_on_def)
  then have "distinct (map (\<lambda>i. a + s * int i) [0..<m])" by (simp add: distinct_map)
  then have "distinct (map fst ps)" using assms(1) by simp
  then show ?thesis by (simp add: distinct_map)
qed

lemma distinct_by_snd:
  assumes "map snd ps = map (\<lambda>i. a + s * int i) [0..<m]" and "s \<noteq> 0"
  shows "distinct ps"
proof -
  have "inj_on (\<lambda>i. a + s * int i) (set [0..<m])" using assms(2) by (auto simp: inj_on_def)
  then have "distinct (map (\<lambda>i. a + s * int i) [0..<m])" by (simp add: distinct_map)
  then have "distinct (map snd ps)" using assms(1) by simp
  then show ?thesis by (simp add: distinct_map)
qed


lemma straight_steps:
  fixes x1 x2 :: int
  assumes r: "int_range x1" "int_range x2" and ne: "x1 \<noteq> x2"
    and small: "\<bar>x2 - x1\<bar> < INT_MAX"
  shows "map (\<lambda>s. c_add x1 (c_mul (if x1 < x2 then 1 else - 1) s)) [0 .. \<bar>x2 - x1\<bar>]
           = map (\<lambda>i. x1 + sgn (x2 - x1) * int i) [0..<Suc (nat \<bar>x2 - x1\<bar>)]"
proof -
  have a: "\<bar>x2 - x1\<bar> = int (nat \<bar>x2 - x1\<bar>)" by simp
  have s: "(if x1 < x2 then 1 else - 1) = sgn (x2 - x1)" using ne by (simp add: sgn_if)
  have e: "c_add x1 (c_mul (sgn (x2 - x1)) (int i)) = x1 + sgn (x2 - x1) * int i"
    if i: "i < Suc (nat \<bar>x2 - x1\<bar>)" for i
  proof -
    have il: "int i \<le> \<bar>x2 - x1\<bar>" using i by simp
    have b: "(x1 \<le> x1 + sgn (x2 - x1) * int i \<and> x1 + sgn (x2 - x1) * int i \<le> x2)
           \<or> (x2 \<le> x1 + sgn (x2 - x1) * int i \<and> x1 + sgn (x2 - x1) * int i \<le> x1)"
      using il by (auto simp add: sgn_if)
    have "int_range (sgn (x2 - x1) * int i)"
      using il small by (auto simp add: sgn_if int_range_def INT_MIN_def INT_MAX_def)
    then have m: "c_mul (sgn (x2 - x1)) (int i) = sgn (x2 - x1) * int i" by (rule c_mul_id)
    have "int_range (x1 + sgn (x2 - x1) * int i)" by (rule int_range_between[OF r b])
    then show ?thesis unfolding m by (rule c_add_id)
  qed
  show ?thesis
    unfolding s using e by (subst a, subst upto_nat) (simp add: comp_def del: upt_Suc)
qed

lemma draw_line_horizontal:
  assumes "y1 = y2" "x1 \<noteq> x2" and fits: "line_fits x1 y1 x2 y2"
  shows "draw_line x1 y1 x2 y2 =
           Some (map (\<lambda>i. (x1 + sgn (x2 - x1) * int i, y1)) [0..<Suc (nat \<bar>x2 - x1\<bar>)])"
proof -
  have rng: "int_range x1" "int_range x2" and small: "\<bar>x2 - x1\<bar> < INT_MAX"
    using fits by (simp_all add: line_fits_def)
  have n: "c_abs (c_sub x1 x2) = \<bar>x2 - x1\<bar>" by (rule fits_abs(3)[OF fits])
  have "draw_line x1 y1 x2 y2
          = Some (map (\<lambda>s. (c_add x1 (c_mul (if x1 < x2 then 1 else - 1) s), y1)) [0 .. \<bar>x2 - x1\<bar>])"
    using assms(1,2) unfolding draw_line_def Let_def n
    by (simp add: draw_line_hloop_upto[OF order_refl small])
  also have "\<dots> = Some (map (\<lambda>x. (x, y1))
                       (map (\<lambda>s. c_add x1 (c_mul (if x1 < x2 then 1 else - 1) s)) [0 .. \<bar>x2 - x1\<bar>]))"
    by (simp add: comp_def)
  also have "\<dots> = Some (map (\<lambda>i. (x1 + sgn (x2 - x1) * int i, y1)) [0..<Suc (nat \<bar>x2 - x1\<bar>)])"
    unfolding straight_steps[OF rng assms(2) small] by (simp add: comp_def del: upt_Suc)
  finally show ?thesis .
qed

lemma draw_line_vertical:
  assumes "x1 = x2" "y1 \<noteq> y2" and fits: "line_fits x1 y1 x2 y2"
  shows "draw_line x1 y1 x2 y2 =
           Some (map (\<lambda>i. (x1, y1 + sgn (y2 - y1) * int i)) [0..<Suc (nat \<bar>y2 - y1\<bar>)])"
proof -
  have rng: "int_range y1" "int_range y2" and small: "\<bar>y2 - y1\<bar> < INT_MAX"
    using fits by (simp_all add: line_fits_def)
  have n: "c_abs (c_sub y1 y2) = \<bar>y2 - y1\<bar>" by (rule fits_abs(4)[OF fits])
  have "draw_line x1 y1 x2 y2
          = Some (map (\<lambda>s. (x1, c_add y1 (c_mul (if y1 < y2 then 1 else - 1) s))) [0 .. \<bar>y2 - y1\<bar>])"
    using assms(1,2) unfolding draw_line_def Let_def n
    by (simp add: draw_line_vloop_upto[OF order_refl small])
  also have "\<dots> = Some (map (\<lambda>y. (x1, y))
                       (map (\<lambda>s. c_add y1 (c_mul (if y1 < y2 then 1 else - 1) s)) [0 .. \<bar>y2 - y1\<bar>]))"
    by (simp add: comp_def)
  also have "\<dots> = Some (map (\<lambda>i. (x1, y1 + sgn (y2 - y1) * int i)) [0..<Suc (nat \<bar>y2 - y1\<bar>)])"
    unfolding straight_steps[OF rng assms(2) small] by (simp add: comp_def del: upt_Suc)
  finally show ?thesis .
qed

lemma draw_line_point: "draw_line x1 y1 x1 y1 = Some [(x1, y1)]"
  by (simp add: draw_line_def)

lemma hd_map_upt: "hd (map f [0..<Suc n]) = f 0"
  by (simp add: upt_conv_Cons del: upt_Suc)

lemma draw_line_general_props:
  assumes ne: "x1 \<noteq> x2" "y1 \<noteq> y2" and fits: "line_fits x1 y1 x2 y2"
  shows "\<exists>ps. draw_line x1 y1 x2 y2 = Some ps \<and> ps \<noteq> [] \<and> hd ps = (x1, y1) \<and> last ps = (x2, y2) \<and>
     (\<bar>y2 - y1\<bar> \<le> \<bar>x2 - x1\<bar> \<longrightarrow>
        map fst ps = map (\<lambda>i. x1 + sgn (x2 - x1) * int i) [0..<Suc (nat \<bar>x2 - x1\<bar>)]) \<and>
     (\<bar>x2 - x1\<bar> \<le> \<bar>y2 - y1\<bar> \<longrightarrow>
        map snd ps = map (\<lambda>i. y1 + sgn (y2 - y1) * int i) [0..<Suc (nat \<bar>y2 - y1\<bar>)])"
proof -
  define dx where "dx = \<bar>x2 - x1\<bar>"
  define dy where "dy = \<bar>y2 - y1\<bar>"
  define sx :: int where "sx = (if x1 < x2 then 1 else - 1)"
  define sy :: int where "sy = (if y1 < y2 then 1 else - 1)"
  define e0 where "e0 = (if dx > dy then dx div 2 else - (dy div 2))"
  define n where "n = nat (max dx dy)"
  define wk where "wk = line_walk n dx dy sx sy x1 y1 e0"
  have dl: "draw_line x1 y1 x2 y2 = Some (wk @ [(x2, y2)])"
    using draw_line_general[OF ne fits] unfolding wk_def n_def dx_def dy_def sx_def sy_def e0_def .
  have pos: "0 < dx" "0 < dy" using ne by (auto simp: dx_def dy_def)
  have sg: "sgn (x2 - x1) = sx" "sgn (y2 - y1) = sy" using ne by (auto simp: sx_def sy_def sgn_if)
  have x2: "x2 = x1 + sx * dx" and y2: "y2 = y1 + sy * dy"
    by (auto simp add: sx_def sy_def dx_def dy_def)
  have npos: "n > 0" using pos by (simp add: n_def)
  then obtain m where m: "n = Suc m" by (cases n) auto
  have hd: "hd (wk @ [(x2, y2)]) = (x1, y1)" by (simp add: wk_def m)
  have fst_part: "map fst (wk @ [(x2, y2)]) = map (\<lambda>i. x1 + sx * int i) [0..<Suc (nat dx)]"
    if le: "dy \<le> dx"
  proof -
    have n: "n = nat dx" using le by (simp add: n_def)
    have "map fst wk = map (\<lambda>i. x1 + sx * int i) [0..<n]"
    proof (cases "dy < dx")
      case True
      then show ?thesis unfolding wk_def
        using pos by (intro walk_fst_x) (auto simp: e0_def)
    next
      case False
      with le have eq: "dx = dy" by simp
      show ?thesis unfolding wk_def
        using pos eq by (intro walk_fst_diag) (auto simp: e0_def)
    qed
    then show ?thesis using x2 pos by (simp add: n)
  qed
  have snd_part: "map snd (wk @ [(x2, y2)]) = map (\<lambda>i. y1 + sy * int i) [0..<Suc (nat dy)]"
    if le: "dx \<le> dy"
  proof -
    have n: "n = nat dy" using le by (simp add: n_def)
    have "map snd wk = map (\<lambda>i. y1 + sy * int i) [0..<n]"
      unfolding wk_def using pos le by (intro walk_snd_y) (auto simp: e0_def)
    then show ?thesis using y2 pos by (simp add: n)
  qed
  show ?thesis
    using dl hd fst_part snd_part unfolding sg dx_def[symmetric] dy_def[symmetric]
    by auto
qed

text \<open>
  C4, amended. For every pair of endpoints whose coordinates are C ints and differ by
  less than \<open>INT_MAX\<close> in \<open>x\<close> and in \<open>y\<close>, \<^verbatim>\<open>draw_line\<close> returns; the sequence of pixels
  it passes to \<^verbatim>\<open>set_at\<close> starts with the first endpoint, ends with the second one, and
  has no pixel twice. Along an axis whose absolute delta is not smaller than the other
  one, the coordinates of the sequence are those from the first endpoint to the second
  one, each once and in order (on a tie this holds for both axes).
\<close>

theorem draw_line_one_pixel_per_major_step:
  assumes fits: "line_fits x1 y1 x2 y2"
  shows "\<exists>ps. draw_line x1 y1 x2 y2 = Some ps \<and> ps \<noteq> [] \<and> hd ps = (x1, y1) \<and> last ps = (x2, y2) \<and>
     distinct ps \<and>
     (\<bar>y2 - y1\<bar> \<le> \<bar>x2 - x1\<bar> \<longrightarrow>
        map fst ps = map (\<lambda>i. x1 + sgn (x2 - x1) * int i) [0..<Suc (nat \<bar>x2 - x1\<bar>)]) \<and>
     (\<bar>x2 - x1\<bar> \<le> \<bar>y2 - y1\<bar> \<longrightarrow>
        map snd ps = map (\<lambda>i. y1 + sgn (y2 - y1) * int i) [0..<Suc (nat \<bar>y2 - y1\<bar>)])"
proof -
  have main: "\<exists>ps. draw_line x1 y1 x2 y2 = Some ps \<and> ps \<noteq> [] \<and> hd ps = (x1, y1) \<and> last ps = (x2, y2) \<and>
     (\<bar>y2 - y1\<bar> \<le> \<bar>x2 - x1\<bar> \<longrightarrow>
        map fst ps = map (\<lambda>i. x1 + sgn (x2 - x1) * int i) [0..<Suc (nat \<bar>x2 - x1\<bar>)]) \<and>
     (\<bar>x2 - x1\<bar> \<le> \<bar>y2 - y1\<bar> \<longrightarrow>
        map snd ps = map (\<lambda>i. y1 + sgn (y2 - y1) * int i) [0..<Suc (nat \<bar>y2 - y1\<bar>)])"
  proof -
    consider "x1 = x2 \<and> y1 = y2" | "y1 = y2 \<and> x1 \<noteq> x2" | "x1 = x2 \<and> y1 \<noteq> y2"
      | "x1 \<noteq> x2 \<and> y1 \<noteq> y2" by blast
    then show ?thesis
    proof cases
      case 1
      then show ?thesis by (simp add: draw_line_point)
    next
      case 2
      then have d: "draw_line x1 y1 x2 y2 =
           Some (map (\<lambda>i. (x1 + sgn (x2 - x1) * int i, y1)) [0..<Suc (nat \<bar>x2 - x1\<bar>)])"
        using draw_line_horizontal fits by simp
      have l: "x1 + sgn (x2 - x1) * \<bar>x2 - x1\<bar> = x2" by (simp add: sgn_if)
      show ?thesis unfolding d using 2 l
        by (simp add: hd_map_upt comp_def last_map del: upt_Suc)
    next
      case 3
      then have d: "draw_line x1 y1 x2 y2 =
           Some (map (\<lambda>i. (x1, y1 + sgn (y2 - y1) * int i)) [0..<Suc (nat \<bar>y2 - y1\<bar>)])"
        using draw_line_vertical fits by simp
      have l: "y1 + sgn (y2 - y1) * \<bar>y2 - y1\<bar> = y2" by (simp add: sgn_if)
      show ?thesis unfolding d using 3 l
        by (simp add: hd_map_upt comp_def last_map del: upt_Suc)
    next
      case 4
      then show ?thesis using draw_line_general_props fits by simp
    qed
  qed
  then obtain ps where ps: "draw_line x1 y1 x2 y2 = Some ps" "ps \<noteq> []" "hd ps = (x1, y1)"
     "last ps = (x2, y2)"
     "\<bar>y2 - y1\<bar> \<le> \<bar>x2 - x1\<bar> \<longrightarrow>
        map fst ps = map (\<lambda>i. x1 + sgn (x2 - x1) * int i) [0..<Suc (nat \<bar>x2 - x1\<bar>)]"
     "\<bar>x2 - x1\<bar> \<le> \<bar>y2 - y1\<bar> \<longrightarrow>
        map snd ps = map (\<lambda>i. y1 + sgn (y2 - y1) * int i) [0..<Suc (nat \<bar>y2 - y1\<bar>)]"
    by blast
  have "distinct ps"
  proof (cases "x1 = x2 \<and> y1 = y2")
    case True
    then show ?thesis using ps(1) by (auto simp add: draw_line_point)
  next
    case False
    show ?thesis
    proof (cases "\<bar>y2 - y1\<bar> \<le> \<bar>x2 - x1\<bar>")
      case True
      with False have "sgn (x2 - x1) \<noteq> 0" by (auto simp: sgn_if)
      moreover have "map fst ps = map (\<lambda>i. x1 + sgn (x2 - x1) * int i) [0..<Suc (nat \<bar>x2 - x1\<bar>)]"
        using ps(5) True by blast
      ultimately show ?thesis by (rule distinct_by_fst[rotated])
    next
      case F2: False
      then have "sgn (y2 - y1) \<noteq> 0" by (auto simp: sgn_if)
      moreover have "map snd ps = map (\<lambda>i. y1 + sgn (y2 - y1) * int i) [0..<Suc (nat \<bar>y2 - y1\<bar>)]"
        using ps(6) F2 by linarith
      ultimately show ?thesis by (rule distinct_by_snd[rotated])
    qed
  qed
  with ps show ?thesis by blast
qed

lemma small_line_fits: "line_fits 0 0 5 2" "line_fits 0 0 2 1" "line_fits 2 1 0 0"
  "line_fits 0 0 2 2" "line_fits 2 2 0 0"
  by (simp_all add: line_fits_def int_range_def INT_MIN_def INT_MAX_def)

lemmas c_int_ops = c_add_def c_sub_def c_mul_def c_neg_def c_abs_def wrap_int_def

theorem draw_line_one_pixel_per_major_step_witness:
  "line_fits 0 0 5 2 \<and>
   draw_line 0 0 5 2 = Some [(0, 0), (1, 0), (2, 1), (3, 1), (4, 2), (5, 2)] \<and>
   distinct [(0, 0), (1, 0), (2, 1), (3, 1), (4, 2), (5, 2) :: int \<times> int] \<and>
   \<bar>2 - 0 :: int\<bar> \<le> \<bar>5 - 0\<bar> \<and>
   map fst [(0, 0), (1, 0), (2, 1), (3, 1), (4, 2), (5, 2) :: int \<times> int] = [0, 1, 2, 3, 4, 5]"
proof -
  have e: "draw_line 0 0 5 2 = Some [(0, 0), (1, 0), (2, 1), (3, 1), (4, 2), (5, 2)]"
    by (simp add: draw_line_def draw_line_loop.simps c_div_def Let_def c_int_ops)
  from draw_line_one_pixel_per_major_step[OF small_line_fits(1)]
  obtain ps where ps: "draw_line 0 0 5 2 = Some ps" "distinct ps"
    "\<bar>2 - 0 :: int\<bar> \<le> \<bar>5 - 0\<bar> \<longrightarrow>
       map fst ps = map (\<lambda>i. 0 + sgn (5 - 0) * int i) [0..<Suc (nat \<bar>5 - 0 :: int\<bar>)]"
    by blast
  have p: "ps = [(0, 0), (1, 0), (2, 1), (3, 1), (4, 2), (5, 2)]" using e ps(1) by simp
  have "map fst ps = [0, 1, 2, 3, 4, 5]"
    using ps(3) by (simp add: upt_conv_Cons del: upt_Suc)
  with e ps(2) small_line_fits(1) show ?thesis unfolding p by simp
qed

text \<open>
  The claim C4 as stated, for every pair of integer endpoints, fails at the end of the
  range of \<^verbatim>\<open>int\<close>: from \<open>(INT_MIN, 0)\<close> to \<open>(0, 0)\<close> the value of \<^verbatim>\<open>abs(x1 - x2)\<close> is
  \<open>INT_MIN\<close>, the horizontal loop makes no round and no endpoint is passed to \<^verbatim>\<open>set_at\<close>.
\<close>

theorem draw_line_far_endpoints_counterexample:
  "int_range (- 2147483648) \<and> int_range 0 \<and> draw_line (- 2147483648) 0 0 0 = Some []"
proof -
  have a: "int_range (- 2147483648)" "int_range 0"
    by (simp_all add: int_range_def INT_MIN_def INT_MAX_def)
  have n: "c_abs (c_sub (- 2147483648) 0) = - 2147483648" by (simp add: c_int_ops)
  have "draw_line (- 2147483648) 0 0 0 = draw_line_hloop (- 2147483648) 0 1 (- 2147483648) 0"
    unfolding draw_line_def Let_def n by simp
  also have "\<dots> = Some []" by (subst draw_line_hloop.simps) simp
  finally show ?thesis using a by simp
qed

lemma draw_line_width_1: "draw_line_width 1 p0 p1 p2 p3 = draw_line p0 p1 p2 p3"
  by (cases "draw_line p0 p1 p2 p3") (simp_all add: draw_line_width_def Let_def)

lemma flip_index_image: "(\<lambda>i. n - i) ` {0..<Suc n} = {0..<Suc n}"
proof
  show "(\<lambda>i. n - i) ` {0..<Suc n} \<subseteq> {0..<Suc n}" by auto
  show "{0..<Suc n} \<subseteq> (\<lambda>i. n - i) ` {0..<Suc n}"
  proof
    fix j assume "j \<in> {0..<Suc n}"
    then have "j = n - (n - j)" "n - j \<in> {0..<Suc n}" by auto
    then show "j \<in> (\<lambda>i. n - i) ` {0..<Suc n}" by (rule image_eqI)
  qed
qed

lemma straight_reflect:
  fixes a b x1 y1 :: int
  defines "f \<equiv> (\<lambda>i. (x1 + a * int i, y1 + b * int i))"
  assumes x2: "x2 = x1 + a * int n" and y2: "y2 = y1 + b * int n"
  shows "map (\<lambda>(x, y). (x1 + x2 - x, y1 + y2 - y)) (map f [0..<Suc n])
           = map (\<lambda>i. (x2 + (- a) * int i, y2 + (- b) * int i)) [0..<Suc n]"
    and "set (map (\<lambda>i. (x2 + (- a) * int i, y2 + (- b) * int i)) [0..<Suc n])
           = set (map f [0..<Suc n])"
proof -
  show "map (\<lambda>(x, y). (x1 + x2 - x, y1 + y2 - y)) (map f [0..<Suc n])
           = map (\<lambda>i. (x2 + (- a) * int i, y2 + (- b) * int i)) [0..<Suc n]"
    by (simp add: f_def comp_def del: upt_Suc)
  have g: "\<And>i. i \<in> {0..<Suc n} \<Longrightarrow> (x2 + (- a) * int i, y2 + (- b) * int i) = f (n - i)"
  proof -
    fix i assume "i \<in> {0..<Suc n}"
    then have "int (n - i) = int n - int i" by auto
    then show "(x2 + (- a) * int i, y2 + (- b) * int i) = f (n - i)"
      by (simp add: f_def x2 y2 algebra_simps)
  qed
  have "set (map (\<lambda>i. (x2 + (- a) * int i, y2 + (- b) * int i)) [0..<Suc n])
          = (\<lambda>i. f (n - i)) ` {0..<Suc n}"
    using g by (auto simp del: upt_Suc simp add: image_iff)
  also have "\<dots> = f ` ((\<lambda>i. n - i) ` {0..<Suc n})" by (simp add: image_comp comp_def)
  also have "\<dots> = f ` {0..<Suc n}" by (simp only: flip_index_image)
  finally show "set (map (\<lambda>i. (x2 + (- a) * int i, y2 + (- b) * int i)) [0..<Suc n])
           = set (map f [0..<Suc n])" by (simp del: upt_Suc)
qed


lemma pairs_from_maps:
  assumes "map fst ps = map g [0..<n]" and "map snd ps = map h [0..<n]"
  shows "ps = map (\<lambda>i. (g i, h i)) [0..<n]"
proof (rule nth_equalityI)
  have l: "length ps = n" using assms(1) by (metis length_map length_upt minus_nat.diff_0)
  then show "length ps = length (map (\<lambda>i. (g i, h i)) [0..<n])" by simp
  fix i assume i: "i < length ps"
  have "fst (ps ! i) = map fst ps ! i" "snd (ps ! i) = map snd ps ! i" using i by simp_all
  then have "fst (ps ! i) = g i" "snd (ps ! i) = h i" using assms i l by simp_all
  then show "ps ! i = map (\<lambda>i. (g i, h i)) [0..<n] ! i" using i l by (simp add: prod_eq_iff)
qed

lemma draw_line_reverse_general:
  assumes ne: "x1 \<noteq> x2" "y1 \<noteq> y2" and fits: "line_fits x1 y1 x2 y2"
  shows "\<exists>ps. draw_line x1 y1 x2 y2 = Some ps \<and>
           draw_line x2 y2 x1 y1 = Some (map (\<lambda>(x, y). (x1 + x2 - x, y1 + y2 - y)) ps) \<and>
           (\<bar>x2 - x1\<bar> = \<bar>y2 - y1\<bar> \<longrightarrow>
              ps = map (\<lambda>i. (x1 + sgn (x2 - x1) * int i, y1 + sgn (y2 - y1) * int i))
                     [0..<Suc (nat \<bar>x2 - x1\<bar>)])"
proof -
  define dx where "dx = \<bar>x2 - x1\<bar>"
  define dy where "dy = \<bar>y2 - y1\<bar>"
  define sx :: int where "sx = (if x1 < x2 then 1 else - 1)"
  define sy :: int where "sy = (if y1 < y2 then 1 else - 1)"
  define e0 where "e0 = (if dx > dy then dx div 2 else - (dy div 2))"
  define n where "n = nat (max dx dy)"
  define wk where "wk = line_walk n dx dy sx sy x1 y1 e0"
  have dl: "draw_line x1 y1 x2 y2 = Some (wk @ [(x2, y2)])"
    using draw_line_general[OF ne fits] unfolding wk_def n_def dx_def dy_def sx_def sy_def e0_def .
  have rsx: "(if x2 < x1 then 1 else - 1) = - sx" and rsy: "(if y2 < y1 then 1 else - 1) = - sy"
    using ne by (auto simp: sx_def sy_def)
  have rdx: "\<bar>x1 - x2\<bar> = dx" and rdy: "\<bar>y1 - y2\<bar> = dy" by (auto simp: dx_def dy_def)
  have "draw_line x2 y2 x1 y1 =
          Some (line_walk n dx dy (- sx) (- sy) x2 y2 e0 @ [(x1, y1)])"
    using draw_line_general[of x2 x1 y2 y1] ne fits
    unfolding rsx rsy rdx rdy n_def e0_def line_fits_sym[of x1 y1 x2 y2] by simp
  moreover have "line_walk n dx dy (- sx) (- sy) x2 y2 e0
                   = map (\<lambda>(x, y). (x1 + x2 - x, y1 + y2 - y)) wk"
    using walk_reflect[of n dx dy sx sy "x1 + x2" x1 "y1 + y2" y1 e0] by (simp add: wk_def)
  ultimately have rv: "draw_line x2 y2 x1 y1 =
      Some (map (\<lambda>(x, y). (x1 + x2 - x, y1 + y2 - y)) (wk @ [(x2, y2)]))" by simp
  have diag: "wk @ [(x2, y2)] = map (\<lambda>i. (x1 + sgn (x2 - x1) * int i, y1 + sgn (y2 - y1) * int i))
                     [0..<Suc (nat \<bar>x2 - x1\<bar>)]" if eq: "dx = dy"
  proof -
    have pos: "0 < dx" "0 < dy" using ne by (auto simp: dx_def dy_def)
    have sg: "sgn (x2 - x1) = sx" "sgn (y2 - y1) = sy" using ne by (auto simp: sx_def sy_def sgn_if)
    have x2: "x2 = x1 + sx * dx" and y2: "y2 = y1 + sy * dy"
      by (auto simp add: sx_def sy_def dx_def dy_def)
    have n: "n = nat dx" using eq by (simp add: n_def)
    have a: "map fst wk = map (\<lambda>i. x1 + sx * int i) [0..<n]"
      unfolding wk_def using pos eq by (intro walk_fst_diag) (auto simp: e0_def)
    have b: "map snd wk = map (\<lambda>i. y1 + sy * int i) [0..<n]"
      unfolding wk_def using pos eq by (intro walk_snd_y) (auto simp: e0_def)
    have "wk = map (\<lambda>i. (x1 + sx * int i, y1 + sy * int i)) [0..<n]"
      using pairs_from_maps[OF a b] .
    then show ?thesis using x2 y2 pos eq unfolding sg dx_def[symmetric] by (simp add: n)
  qed
  show ?thesis using dl rv diag unfolding dx_def dy_def by blast
qed

text \<open>
  C5, amended. \<^verbatim>\<open>line(A, B)\<close> and \<^verbatim>\<open>line(B, A)\<close> with width 1 do not always visit the same
  pixels (the evaluation after the theorem). What holds for every \<open>A = (x1, y1)\<close>
  and \<open>B = (x2, y2)\<close> whose coordinates are C ints and differ by less than \<open>INT_MAX\<close> in
  \<open>x\<close> and in \<open>y\<close>: both calls return, and the pixels of the reversed line are the
  pixels \<open>A + B - p\<close> of the line, in the same order (a point reflection through the
  middle of the segment); the two sets of pixels are equal when the segment is
  horizontal, vertical, a single point, or has equal absolute deltas.
\<close>

theorem line_reversed_is_reflection:
  assumes fits: "line_fits x1 y1 x2 y2"
  shows "\<exists>ps qs. draw_line_width 1 x1 y1 x2 y2 = Some ps \<and> draw_line_width 1 x2 y2 x1 y1 = Some qs \<and>
      qs = map (\<lambda>(x, y). (x1 + x2 - x, y1 + y2 - y)) ps \<and>
      (x1 = x2 \<or> y1 = y2 \<or> \<bar>x2 - x1\<bar> = \<bar>y2 - y1\<bar> \<longrightarrow> set qs = set ps)"
proof -
  let ?R = "\<lambda>(x, y). (x1 + x2 - x, y1 + y2 - y)"
  consider "x1 = x2 \<and> y1 = y2" | "y1 = y2 \<and> x1 \<noteq> x2" | "x1 = x2 \<and> y1 \<noteq> y2"
    | "x1 \<noteq> x2 \<and> y1 \<noteq> y2" by blast
  then have "\<exists>ps. draw_line x1 y1 x2 y2 = Some ps \<and> draw_line x2 y2 x1 y1 = Some (map ?R ps) \<and>
      (x1 = x2 \<or> y1 = y2 \<or> \<bar>x2 - x1\<bar> = \<bar>y2 - y1\<bar> \<longrightarrow> set (map ?R ps) = set ps)"
  proof cases
    case 1
    then show ?thesis by (simp add: draw_line_point)
  next
    case 2
    define n where "n = nat \<bar>x2 - x1\<bar>"
    define a where "a = sgn (x2 - x1)"
    have x2: "x2 = x1 + a * int n" and y2: "y2 = y1 + 0 * int n"
      using 2 by (auto simp: n_def a_def sgn_if)
    have ra: "sgn (x1 - x2) = - a" and rn: "nat \<bar>x1 - x2\<bar> = n"
      by (auto simp: a_def n_def sgn_if)
    have p: "draw_line x1 y1 x2 y2 = Some (map (\<lambda>i. (x1 + a * int i, y1 + 0 * int i)) [0..<Suc n])"
      using draw_line_horizontal[of y1 y2 x1 x2] 2 fits by (simp add: a_def n_def del: upt_Suc)
    have q: "draw_line x2 y2 x1 y1 = Some (map (\<lambda>i. (x2 + (- a) * int i, y2 + (- 0) * int i)) [0..<Suc n])"
      using draw_line_horizontal[of y2 y1 x2 x1] 2 fits line_fits_sym[of x1 y1 x2 y2]
      by (simp add: ra rn del: upt_Suc)
    have m: "map ?R (map (\<lambda>i. (x1 + a * int i, y1 + 0 * int i)) [0..<Suc n])
               = map (\<lambda>i. (x2 + (- a) * int i, y2 + (- 0) * int i)) [0..<Suc n]"
      by (rule straight_reflect(1)[OF x2 y2])
    have st: "set (map (\<lambda>i. (x2 + (- a) * int i, y2 + (- 0) * int i)) [0..<Suc n])
               = set (map (\<lambda>i. (x1 + a * int i, y1 + 0 * int i)) [0..<Suc n])"
      by (rule straight_reflect(2)[OF x2 y2])
    show ?thesis
      by (rule exI[where x = "map (\<lambda>i. (x1 + a * int i, y1 + 0 * int i)) [0..<Suc n]"])
         (simp only: p q m st simp_thms)
  next
    case 3
    define n where "n = nat \<bar>y2 - y1\<bar>"
    define b where "b = sgn (y2 - y1)"
    have y2: "y2 = y1 + b * int n" and x2: "x2 = x1 + 0 * int n"
      using 3 by (auto simp: n_def b_def sgn_if)
    have rb: "sgn (y1 - y2) = - b" and rn: "nat \<bar>y1 - y2\<bar> = n"
      by (auto simp: b_def n_def sgn_if)
    have p: "draw_line x1 y1 x2 y2 = Some (map (\<lambda>i. (x1 + 0 * int i, y1 + b * int i)) [0..<Suc n])"
      using draw_line_vertical[of x1 x2 y1 y2] 3 fits by (simp add: b_def n_def del: upt_Suc)
    have q: "draw_line x2 y2 x1 y1 = Some (map (\<lambda>i. (x2 + (- 0) * int i, y2 + (- b) * int i)) [0..<Suc n])"
      using draw_line_vertical[of x2 x1 y2 y1] 3 fits line_fits_sym[of x1 y1 x2 y2]
      by (simp add: rb rn del: upt_Suc)
    have m: "map ?R (map (\<lambda>i. (x1 + 0 * int i, y1 + b * int i)) [0..<Suc n])
               = map (\<lambda>i. (x2 + (- 0) * int i, y2 + (- b) * int i)) [0..<Suc n]"
      by (rule straight_reflect(1)[OF x2 y2])
    have st: "set (map (\<lambda>i. (x2 + (- 0) * int i, y2 + (- b) * int i)) [0..<Suc n])
               = set (map (\<lambda>i. (x1 + 0 * int i, y1 + b * int i)) [0..<Suc n])"
      by (rule straight_reflect(2)[OF x2 y2])
    show ?thesis
      by (rule exI[where x = "map (\<lambda>i. (x1 + 0 * int i, y1 + b * int i)) [0..<Suc n]"])
         (simp only: p q m st simp_thms)
  next
    case 4
    then obtain ps where ps: "draw_line x1 y1 x2 y2 = Some ps"
        "draw_line x2 y2 x1 y1 = Some (map ?R ps)"
        "\<bar>x2 - x1\<bar> = \<bar>y2 - y1\<bar> \<longrightarrow>
              ps = map (\<lambda>i. (x1 + sgn (x2 - x1) * int i, y1 + sgn (y2 - y1) * int i))
                     [0..<Suc (nat \<bar>x2 - x1\<bar>)]"
      using draw_line_reverse_general[of x1 x2 y1 y2] fits by blast
    have "set (map ?R ps) = set ps" if d: "\<bar>x2 - x1\<bar> = \<bar>y2 - y1\<bar>"
    proof -
      define n where "n = nat \<bar>x2 - x1\<bar>"
      have x2: "x2 = x1 + sgn (x2 - x1) * int n" by (simp add: n_def sgn_if)
      have y2: "y2 = y1 + sgn (y2 - y1) * int n" using d by (simp add: n_def sgn_if)
      have p: "ps = map (\<lambda>i. (x1 + sgn (x2 - x1) * int i, y1 + sgn (y2 - y1) * int i)) [0..<Suc n]"
        using ps(3) d by (simp add: n_def)
      have "map ?R ps = map (\<lambda>i. (x2 + (- sgn (x2 - x1)) * int i, y2 + (- sgn (y2 - y1)) * int i)) [0..<Suc n]"
        unfolding p by (rule straight_reflect(1)[OF x2 y2])
      moreover have "set (map (\<lambda>i. (x2 + (- sgn (x2 - x1)) * int i, y2 + (- sgn (y2 - y1)) * int i)) [0..<Suc n]) = set ps"
        unfolding p by (rule straight_reflect(2)[OF x2 y2])
      ultimately show ?thesis by simp
    qed
    with ps 4 show ?thesis by blast
  qed
  then show ?thesis by (simp add: draw_line_width_1)
qed

text \<open>
  The claim C5 as stated fails for \<open>A = (0, 0)\<close>, \<open>B = (2, 1)\<close>: the line from \<open>A\<close> visits
  \<open>(1, 0)\<close>, the line from \<open>B\<close> visits \<open>(1, 1)\<close> instead, and on a 3 by 2 surface all
  these requests are stored.
\<close>

theorem line_symmetry_counterexample:
  "line_fits 0 0 2 1 \<and>
   draw_line_width 1 0 0 2 1 = Some [(0, 0), (1, 0), (2, 1)] \<and>
   draw_line_width 1 2 1 0 0 = Some [(2, 1), (1, 1), (0, 0)] \<and>
   written (blank_surface 3 2) (with_color 7 [(0, 0), (1, 0), (2, 1)]) = [(0, 0), (1, 0), (2, 1)] \<and>
   written (blank_surface 3 2) (with_color 7 [(2, 1), (1, 1), (0, 0)]) = [(2, 1), (1, 1), (0, 0)] \<and>
   (1, 0) \<in> set [(0, 0), (1, 0), (2, 1) :: int \<times> int] \<and>
   (1, 0) \<notin> set [(2, 1), (1, 1), (0, 0) :: int \<times> int]"
proof -
  have a: "draw_line_width 1 0 0 2 1 = Some [(0, 0), (1, 0), (2, 1)]"
    by (simp add: draw_line_width_1 draw_line_def draw_line_loop.simps c_div_def Let_def c_int_ops)
  have b: "draw_line_width 1 2 1 0 0 = Some [(2, 1), (1, 1), (0, 0)]"
    by (simp add: draw_line_width_1 draw_line_def draw_line_loop.simps c_div_def Let_def c_int_ops)
  have c: "written (blank_surface 3 2) (with_color 7 [(0, 0), (1, 0), (2, 1)]) = [(0, 0), (1, 0), (2, 1)]"
    by (simp add: written_def with_color_def outside_clip_def blank_surface_def)
  have d: "written (blank_surface 3 2) (with_color 7 [(2, 1), (1, 1), (0, 0)]) = [(2, 1), (1, 1), (0, 0)]"
    by (simp add: written_def with_color_def outside_clip_def blank_surface_def)
  have e: "(1, 0) \<in> set [(0, 0), (1, 0), (2, 1) :: int \<times> int]" by simp
  have f: "(1, 0) \<notin> set [(2, 1), (1, 1), (0, 0) :: int \<times> int]" by simp
  show ?thesis by (intro conjI small_line_fits(2) a b c d e f)
qed

theorem line_reversed_is_reflection_witness:
  "line_fits 0 0 2 2 \<and>
   draw_line_width 1 0 0 2 2 = Some [(0, 0), (1, 1), (2, 2)] \<and>
   draw_line_width 1 2 2 0 0 = Some [(2, 2), (1, 1), (0, 0)] \<and>
   \<bar>2 - 0 :: int\<bar> = \<bar>2 - 0\<bar> \<and>
   [(2, 2), (1, 1), (0, 0)] = map (\<lambda>(x, y). (0 + 2 - x, 0 + 2 - y)) [(0, 0), (1, 1), (2, 2) :: int \<times> int] \<and>
   set [(2, 2), (1, 1), (0, 0)] = set [(0, 0), (1, 1), (2, 2) :: int \<times> int]"
proof -
  have a: "draw_line_width 1 0 0 2 2 = Some [(0, 0), (1, 1), (2, 2)]"
    by (simp add: draw_line_width_1 draw_line_def draw_line_loop.simps c_div_def Let_def c_int_ops)
  have b: "draw_line_width 1 2 2 0 0 = Some [(2, 2), (1, 1), (0, 0)]"
    by (simp add: draw_line_width_1 draw_line_def draw_line_loop.simps c_div_def Let_def c_int_ops)
  from line_reversed_is_reflection[OF small_line_fits(4)]
  obtain ps qs where r: "draw_line_width 1 0 0 2 2 = Some ps" "draw_line_width 1 2 2 0 0 = Some qs"
    "qs = map (\<lambda>(x, y). (0 + 2 - x, 0 + 2 - y)) ps"
    "(0::int) = 2 \<or> (0::int) = 2 \<or> \<bar>2 - 0 :: int\<bar> = \<bar>2 - 0\<bar> \<longrightarrow> set qs = set ps"
    by blast
  have p: "ps = [(0, 0), (1, 1), (2, 2)]" and q: "qs = [(2, 2), (1, 1), (0, 0)]"
    using a b r(1,2) by simp_all
  have s: "set qs = set ps" using r(4) by simp
  have d: "\<bar>2 - 0 :: int\<bar> = \<bar>2 - 0\<bar>" by simp
  show ?thesis by (intro conjI small_line_fits(4) a b d r(3)[unfolded p q] s[unfolded p q])
qed

section \<open>Binary32 rounding\<close>

lemma find_upt_least:
  assumes "k < n" "P k" "\<And>j. j < k \<Longrightarrow> \<not> P j"
  shows "find P [0..<n] = Some k"
proof -
  have "\<exists>i<length [0..<n]. P ([0..<n] ! i) \<and> k = [0..<n] ! i \<and> (\<forall>j<i. \<not> P ([0..<n] ! j))"
    using assms by (intro exI[of _ k]) simp
  then show ?thesis by (simp only: find_Some_iff)
qed

lemma find_upt_bound:
  assumes "k0 < n" "P k0"
  shows "\<exists>k. find P [0..<n] = Some k \<and> k \<le> k0 \<and> P k"
proof -
  define k where "k = (LEAST j. P j)"
  have pk: "P k" unfolding k_def using assms(2) by (rule LeastI)
  have le: "k \<le> k0" unfolding k_def using assms(2) by (rule Least_le)
  have "\<And>j. j < k \<Longrightarrow> \<not> P j" unfolding k_def by (rule not_less_Least)
  then have "find P [0..<n] = Some k" using assms(1) le pk by (intro find_upt_least) auto
  then show ?thesis using le pk by blast
qed

lemma f32_rne_near: "\<bar>of_int (f32_rne q) - q\<bar> \<le> 1 / 2"
proof -
  define n where "n = \<lfloor>q\<rfloor>"
  define d where "d = q - of_int n"
  have d: "0 \<le> d" "d < 1" unfolding d_def n_def by linarith+
  have q: "q = of_int n + d" by (simp add: d_def)
  have "f32_rne q = (if d < 1 / 2 then n else if 1 / 2 < d then n + 1 else if even n then n else n + 1)"
    by (simp add: f32_rne_def Let_def n_def d_def)
  then consider "d < 1 / 2" "f32_rne q = n" | "1 / 2 < d" "f32_rne q = n + 1"
    | "d = 1 / 2" "f32_rne q = n \<or> f32_rne q = n + 1"
    by (cases "d < 1 / 2"; cases "1 / 2 < d"; cases "even n") auto
  then show ?thesis
  proof cases
    case 1
    then show ?thesis using d q by simp
  next
    case 2
    then show ?thesis using d q by simp
  next
    case 3
    then show ?thesis using q by auto
  qed
qed

lemma f32_rne_nonneg: "0 \<le> q \<Longrightarrow> 0 \<le> f32_rne q"
  by (simp add: f32_rne_def Let_def)

lemma f32_rne_int: "f32_rne (of_int n) = n"
  by (simp add: f32_rne_def Let_def)

lemma f32_round_near:
  assumes k0: "k0 < 253" and r: "\<bar>r\<bar> * 2 ^ 125 < 2 ^ k0"
  shows "\<exists>v. f32_round r = Some v \<and> \<bar>v - r\<bar> \<le> 2 ^ k0 / 2 ^ 150 \<and> (0 \<le> r \<longrightarrow> 0 \<le> v)"
proof -
  from find_upt_bound[of k0 254 "\<lambda>k. \<bar>r\<bar> * 2 ^ 125 < 2 ^ k"] k0 r
  obtain k where k: "find (\<lambda>k. \<bar>r\<bar> * 2 ^ 125 < 2 ^ k) [0..<254] = Some k" "k \<le> k0"
    by auto
  define q :: rat where "q = 2 ^ k / 2 ^ 149"
  define v where "v = of_int (f32_rne (r / q)) * q"
  have qpos: "0 < q" by (simp add: q_def)
  have qle: "q \<le> 2 ^ k0 / 2 ^ 149"
    unfolding q_def using k(2) by (simp add: divide_right_mono power_increasing)
  have "\<bar>v - r\<bar> = \<bar>of_int (f32_rne (r / q)) - r / q\<bar> * q"
  proof -
    have "v - r = (of_int (f32_rne (r / q)) - r / q) * q"
      using qpos by (simp add: v_def algebra_simps)
    then show ?thesis using qpos by (simp add: abs_mult)
  qed
  also have "\<dots> \<le> (1 / 2) * q"
    using f32_rne_near[of "r / q"] qpos by (intro mult_right_mono) auto
  also have "\<dots> \<le> (1 / 2) * (2 ^ k0 / 2 ^ 149)" using qle by simp
  also have "\<dots> = 2 ^ k0 / 2 ^ 150" by simp
  finally have near: "\<bar>v - r\<bar> \<le> 2 ^ k0 / 2 ^ 150" .
  have rb: "\<bar>r\<bar> < 2 ^ k0 / 2 ^ 125"
    using r by (simp add: pos_less_divide_eq)
  have "(2 :: rat) ^ k0 / 2 ^ 150 \<le> 2 ^ k0 / 2 ^ 125"
    by (intro divide_left_mono) simp_all
  then have "\<bar>v\<bar> < 2 ^ k0 / 2 ^ 125 + 2 ^ k0 / 2 ^ 125" using near rb by linarith
  also have "\<dots> = 2 ^ Suc k0 / 2 ^ 125" by simp
  also have "\<dots> \<le> 2 ^ 253 / 2 ^ 125"
    using k0 by (intro divide_right_mono power_increasing) simp_all
  also have "\<dots> = 2 ^ 128" by simp
  finally have fin: "\<bar>v\<bar> < 2 ^ 128" .
  have val: "f32_round r = Some v"
    unfolding f32_round_def k(1) using fin by (simp add: Let_def q_def v_def)
  have sg: "0 \<le> v" if "0 \<le> r"
  proof -
    have "0 \<le> r / q" using that qpos by simp
    then have "0 \<le> f32_rne (r / q)" by (rule f32_rne_nonneg)
    then show ?thesis using qpos by (simp add: v_def)
  qed
  show ?thesis using val near sg by blast
qed

lemma f32_round_exact:
  assumes "k < 254" "\<bar>r\<bar> * 2 ^ 125 < 2 ^ k" "k = 0 \<or> 2 ^ (k - 1) \<le> \<bar>r\<bar> * 2 ^ 125"
    and "r = of_int n * (2 ^ k / 2 ^ 149)"
  shows "f32_round r = Some r"
proof -
  have mono: "\<not> \<bar>r\<bar> * 2 ^ 125 < 2 ^ j" if "j < k" for j
  proof -
    have "k \<noteq> 0" using that by simp
    then have "(2 :: rat) ^ (k - 1) \<le> \<bar>r\<bar> * 2 ^ 125" using assms(3) by simp
    moreover have "(2 :: rat) ^ j \<le> 2 ^ (k - 1)" using that by (intro power_increasing) simp_all
    ultimately show ?thesis by linarith
  qed
  have f: "find (\<lambda>k. \<bar>r\<bar> * 2 ^ 125 < 2 ^ k) [0..<254] = Some k"
    by (rule find_upt_least[of k 254 "\<lambda>k. \<bar>r\<bar> * 2 ^ 125 < 2 ^ k"]) (use assms(1,2) mono in auto)
  have "r / (2 ^ k / 2 ^ 149) = of_int n" unfolding assms(4) by simp
  then have v: "of_int (f32_rne (r / (2 ^ k / 2 ^ 149))) * (2 ^ k / 2 ^ 149) = r"
    by (simp add: f32_rne_int assms(4))
  have "\<bar>r\<bar> < 2 ^ k / 2 ^ 125" using assms(2) by (simp add: pos_less_divide_eq)
  also have "\<dots> \<le> 2 ^ 253 / 2 ^ 125"
    using assms(1) by (intro divide_right_mono power_increasing) simp_all
  also have "\<dots> = 2 ^ 128" by simp
  finally have fin: "\<bar>r\<bar> < 2 ^ 128" .
  show ?thesis unfolding f32_round_def f by (simp only: option.case Let_def v fin if_True)
qed

section \<open>The antialiased colour sampler\<close>

lemma float_of_Uint8_range: "0 \<le> float_of_Uint8 c \<and> float_of_Uint8 c \<le> 255"
proof -
  have "unat c < 256" using unsigned_less[of c, where ?'a = nat] by simp
  then have "unat c \<le> 255" by simp
  then have "(of_nat (unat c) :: rat) \<le> of_nat 255" by (rule of_nat_mono)
  then have a: "(of_nat (unat c) :: rat) \<le> 255" by (simp only: of_nat_numeral)
  have b: "0 \<le> (of_nat (unat c) :: rat)" by (rule of_nat_0_le_iff)
  show ?thesis unfolding float_of_Uint8_def by (rule conjI[OF b a])
qed


lemma f32_round_small:
  assumes "0 \<le> r" "r < 256"
  shows "\<exists>v. f32_round r = Some v \<and> \<bar>v - r\<bar> \<le> 1 / 131072 \<and> 0 \<le> v"
proof -
  have "\<bar>r\<bar> * 2 ^ 125 < 256 * 2 ^ 125" using assms by simp
  also have "\<dots> = (2 :: rat) ^ 133" by simp
  finally have b: "\<bar>r\<bar> * 2 ^ 125 < 2 ^ 133" .
  have e: "(2 :: rat) ^ 133 / 2 ^ 150 = 1 / 131072" by simp
  show ?thesis using f32_round_near[of 133 r, OF _ b] assms(1) unfolding e by auto
qed

lemma f32_round_unit:
  assumes "0 \<le> r" "r \<le> 1"
  shows "\<exists>v. f32_round r = Some v \<and> \<bar>v - r\<bar> \<le> 1 / 16777216 \<and> 0 \<le> v"
proof -
  have "\<bar>r\<bar> * 2 ^ 125 < 2 * 2 ^ 125" using assms by simp
  also have "\<dots> = (2 :: rat) ^ 126" by simp
  finally have b: "\<bar>r\<bar> * 2 ^ 125 < 2 ^ 126" .
  have e: "(2 :: rat) ^ 126 / 2 ^ 150 = 1 / 16777216" by simp
  show ?thesis using f32_round_near[of 126 r, OF _ b] assms(1) unfolding e by auto
qed

lemma f32_round_sum:
  assumes "0 \<le> r" "r < 512"
  shows "\<exists>v. f32_round r = Some v \<and> \<bar>v - r\<bar> \<le> 1 / 65536 \<and> 0 \<le> v"
proof -
  have "\<bar>r\<bar> * 2 ^ 125 < 512 * 2 ^ 125" using assms by simp
  also have "\<dots> = (2 :: rat) ^ 134" by simp
  finally have b: "\<bar>r\<bar> * 2 ^ 125 < 2 ^ 134" .
  have e: "(2 :: rat) ^ 134 / 2 ^ 150 = 1 / 65536" by simp
  show ?thesis using f32_round_near[of 134 r, OF _ b] assms(1) unfolding e by auto
qed

lemma abs_diff_upper:
  fixes a b e u :: rat
  shows "\<bar>a - b\<bar> \<le> e \<Longrightarrow> b \<le> u \<Longrightarrow> a \<le> u + e"
  by linarith

lemma blend_value_near:
  assumes br: "0 \<le> brightness" "brightness \<le> 1"
  shows "\<exists>v. blend_value brightness c b = Some v \<and>
           \<bar>v - (brightness * float_of_Uint8 c + (1 - brightness) * float_of_Uint8 b)\<bar> \<le> 1 / 16384 \<and>
           0 \<le> v \<and> v < 256"
proof -
  define x where "x = float_of_Uint8 c"
  define y where "y = float_of_Uint8 b"
  have x: "0 \<le> x" "x \<le> 255" and y: "0 \<le> y" "y \<le> 255"
    using float_of_Uint8_range[of c] float_of_Uint8_range[of b] by (simp_all add: x_def y_def)
  have r1: "0 \<le> brightness * x" using br x by simp
  have "brightness * x \<le> 1 * 255" using br x by (intro mult_mono) auto
  then have r1u: "brightness * x \<le> 255" by simp
  from f32_round_small[OF r1] r1u
  obtain p where p: "f32_round (brightness * x) = Some p" "\<bar>p - brightness * x\<bar> \<le> 1 / 131072" "0 \<le> p"
    by auto
  have r2: "0 \<le> 1 - brightness" "1 - brightness \<le> 1" using br by simp_all
  from f32_round_unit[OF r2]
  obtain d where d: "f32_round (1 - brightness) = Some d" "\<bar>d - (1 - brightness)\<bar> \<le> 1 / 16777216" "0 \<le> d"
    by auto
  have dy: "\<bar>d * y - (1 - brightness) * y\<bar> \<le> (1 / 16777216) * 255"
  proof -
    have "\<bar>d * y - (1 - brightness) * y\<bar> = \<bar>d - (1 - brightness)\<bar> * y"
      using y(1) by (simp add: abs_mult left_diff_distrib[symmetric])
    also have "\<dots> \<le> (1 / 16777216) * 255" using d(2) y by (intro mult_mono) auto
    finally show ?thesis .
  qed
  have e2: "(1 - brightness) * y \<le> 1 * 255" using r2 y by (intro mult_mono) auto
  have e2l: "0 \<le> (1 - brightness) * y" using r2 y by simp
  have r3: "0 \<le> d * y" using d(3) y by simp
  have "d * y - (1 - brightness) * y \<le> \<bar>d * y - (1 - brightness) * y\<bar>" by (rule abs_ge_self)
  then have r3u: "d * y < 256" using dy e2 by linarith
  from f32_round_small[OF r3 r3u]
  obtain q where q: "f32_round (d * y) = Some q" "\<bar>q - d * y\<bar> \<le> 1 / 131072" "0 \<le> q"
    by auto
  have r4: "0 \<le> p + q" using p(3) q(3) by simp
  have pu: "p \<le> 255 + 1 / 131072" by (rule abs_diff_upper[OF p(2) r1u])
  have qu: "q \<le> 256 + 1 / 131072" by (rule abs_diff_upper[OF q(2) less_imp_le[OF r3u]])
  have r4u: "p + q < 512" using pu qu by simp
  from f32_round_sum[OF r4 r4u]
  obtain s where s: "f32_round (p + q) = Some s" "\<bar>s - (p + q)\<bar> \<le> 1 / 65536" "0 \<le> s"
    by auto
  have val: "blend_value brightness c b = Some s"
    unfolding blend_value_def f32_mul_def f32_sub_def f32_add_def x_def[symmetric] y_def[symmetric]
    by (simp add: p(1) d(1) q(1) s(1))
  define ex where "ex = brightness * x + (1 - brightness) * y"
  have "\<bar>s - ex\<bar> \<le> \<bar>s - (p + q)\<bar> + \<bar>p - brightness * x\<bar> + \<bar>q - d * y\<bar> + \<bar>d * y - (1 - brightness) * y\<bar>"
    unfolding ex_def by linarith
  also have "\<dots> \<le> 1 / 65536 + 1 / 131072 + 1 / 131072 + (1 / 16777216) * 255"
    using s(2) p(2) q(2) dy by linarith
  also have "\<dots> \<le> 1 / 16384" by simp
  finally have near: "\<bar>s - ex\<bar> \<le> 1 / 16384" .
  have "ex \<le> brightness * 255 + (1 - brightness) * 255"
    unfolding ex_def using br x y by (intro add_mono mult_left_mono) auto
  then have "ex \<le> 255" by (simp add: algebra_simps)
  then have "s \<le> 255 + 1 / 16384" by (rule abs_diff_upper[OF near])
  then have su: "s < 256" by simp
  show ?thesis using val near s(3) su unfolding ex_def x_def y_def by blast
qed

lemma Uint8_of_float_floor:
  assumes "0 \<le> v" "v < 256"
  shows "Uint8_of_float v = word_of_int \<lfloor>v\<rfloor> \<and> uint (Uint8_of_float v) = \<lfloor>v\<rfloor> \<and> of_int \<lfloor>v\<rfloor> \<le> v \<and> v < of_int \<lfloor>v\<rfloor> + 1"
proof -
  have f0: "0 \<le> \<lfloor>v\<rfloor>" using assms by simp
  have f1: "\<lfloor>v\<rfloor> < 256" using assms by (simp add: floor_less_iff)
  have "uint (word_of_int \<lfloor>v\<rfloor> :: Uint8) = \<lfloor>v\<rfloor> mod 256" by (simp add: uint_word_of_int)
  also have "\<dots> = \<lfloor>v\<rfloor>" using f0 f1 by simp
  finally have u: "uint (word_of_int \<lfloor>v\<rfloor> :: Uint8) = \<lfloor>v\<rfloor>" .
  have e: "Uint8_of_float v = word_of_int \<lfloor>v\<rfloor>" using assms by (simp add: Uint8_of_float_def)
  have "of_int \<lfloor>v\<rfloor> \<le> v" "v < of_int \<lfloor>v\<rfloor> + 1" by linarith+
  then show ?thesis using e u by simp
qed

lemma blend_channel_trunc:
  assumes br: "0 \<le> brightness" "brightness \<le> 1"
  shows "\<exists>v r. blend_value brightness c b = Some v \<and> blend_channel brightness c b = Some r \<and>
           uint r = \<lfloor>v\<rfloor> \<and>
           \<bar>v - (brightness * float_of_Uint8 c + (1 - brightness) * float_of_Uint8 b)\<bar> \<le> 1 / 16384"
proof -
  from blend_value_near[OF br, of c b]
  obtain v where v: "blend_value brightness c b = Some v"
    "\<bar>v - (brightness * float_of_Uint8 c + (1 - brightness) * float_of_Uint8 b)\<bar> \<le> 1 / 16384"
    "0 \<le> v" "v < 256" by blast
  have "blend_channel brightness c b = Some (Uint8_of_float v)" by (simp add: blend_channel_def v(1))
  moreover have "uint (Uint8_of_float v) = \<lfloor>v\<rfloor>"
    by (rule conjunct1[OF conjunct2[OF Uint8_of_float_floor[OF v(3,4)]]])
  ultimately show ?thesis using v(1,2) by blast
qed

text \<open>
  C3, amended. For a call of \<^verbatim>\<open>get_antialiased_color\<close> with \<open>blend\<close> set, a coverage
  \<open>0 \<le> brightness \<le> 1\<close> and a location \<open>(x, y)\<close> inside the clip rectangle of a surface of
  four bytes per pixel whose pitch is \<open>4 * w\<close>, where the word the sampler reads is the
  destination pixel: when that pixel holds the color \<open>dst\<close>, the result is
  \<^verbatim>\<open>SDL_MapRGBA\<close> of four channels, each the integer part (the fraction is dropped, not
  rounded) of the binary32 value \<open>v\<close> of \<open>brightness * c + (1 - brightness) * b\<close> for the
  channels \<open>c\<close> of the source color and \<open>b\<close> of \<open>dst\<close>; \<open>v\<close> is within \<open>2 ^ - 14\<close> of the
  exact value of that expression. When \<open>(x, y)\<close> is outside the clip rectangle the
  result is the source color unchanged.
\<close>

theorem antialiased_color_blend:
  "(blend \<noteq> 0 \<and> \<not> outside_clip surf x y \<and> BytesPerPixel (format surf) = 4 \<and>
    pitch surf = 4 * surf_w surf \<and> pixel_holds surf x y dst \<and>
    0 \<le> brightness \<and> brightness \<le> 1 \<longrightarrow>
      (case GetRGBA (format surf) original_color of (c0, c1, c2, c3) \<Rightarrow>
       case GetRGBA (format surf) dst of (b0, b1, b2, b3) \<Rightarrow>
         \<exists>r0 r1 r2 r3.
           get_antialiased_color surf x y original_color brightness blend
             = Some (MapRGBA (format surf) r0 r1 r2 r3) \<and>
           (\<exists>v. blend_value brightness c0 b0 = Some v \<and> uint r0 = \<lfloor>v\<rfloor> \<and>
              \<bar>v - (brightness * float_of_Uint8 c0 + (1 - brightness) * float_of_Uint8 b0)\<bar> \<le> 1 / 16384) \<and>
           (\<exists>v. blend_value brightness c1 b1 = Some v \<and> uint r1 = \<lfloor>v\<rfloor> \<and>
              \<bar>v - (brightness * float_of_Uint8 c1 + (1 - brightness) * float_of_Uint8 b1)\<bar> \<le> 1 / 16384) \<and>
           (\<exists>v. blend_value brightness c2 b2 = Some v \<and> uint r2 = \<lfloor>v\<rfloor> \<and>
              \<bar>v - (brightness * float_of_Uint8 c2 + (1 - brightness) * float_of_Uint8 b2)\<bar> \<le> 1 / 16384) \<and>
           (\<exists>v. blend_value brightness c3 b3 = Some v \<and> uint r3 = \<lfloor>v\<rfloor> \<and>
              \<bar>v - (brightness * float_of_Uint8 c3 + (1 - brightness) * float_of_Uint8 b3)\<bar> \<le> 1 / 16384))) \<and>
   (blend \<noteq> 0 \<and> outside_clip surf x y \<longrightarrow>
      get_antialiased_color surf x y original_color brightness blend = Some original_color)"
proof (intro conjI impI)
  assume h: "blend \<noteq> 0 \<and> \<not> outside_clip surf x y \<and> BytesPerPixel (format surf) = 4 \<and>
    pitch surf = 4 * surf_w surf \<and> pixel_holds surf x y dst \<and>
    0 \<le> brightness \<and> brightness \<le> 1"
  then have br: "0 \<le> brightness" "brightness \<le> 1" by simp_all
  have a: "4 * (y * surf_w surf + x) = y * pitch surf + 4 * x" using h by (simp add: algebra_simps)
  have b4: "BytesPerPixel (format surf) = 4" and ph: "pixel_holds surf x y dst" using h by simp_all
  have "load_Uint32 (lil_endian surf) (pixels surf) (y * pitch surf + 4 * x) = dst"
    using ph unfolding pixel_holds_def Let_def b4 by simp
  then have ld: "load_Uint32 (lil_endian surf) (pixels surf) (4 * (y * surf_w surf + x)) = dst"
    unfolding a .
  obtain c0 c1 c2 c3 where c: "GetRGBA (format surf) original_color = (c0, c1, c2, c3)"
    by (cases "GetRGBA (format surf) original_color")
  obtain b0 b1 b2 b3 where b: "GetRGBA (format surf) dst = (b0, b1, b2, b3)"
    by (cases "GetRGBA (format surf) dst")
  from blend_channel_trunc[OF br, of c0 b0] obtain v0 r0 where
    t0: "blend_value brightness c0 b0 = Some v0" "blend_channel brightness c0 b0 = Some r0"
      "uint r0 = \<lfloor>v0\<rfloor>"
      "\<bar>v0 - (brightness * float_of_Uint8 c0 + (1 - brightness) * float_of_Uint8 b0)\<bar> \<le> 1 / 16384"
    by blast
  from blend_channel_trunc[OF br, of c1 b1] obtain v1 r1 where
    t1: "blend_value brightness c1 b1 = Some v1" "blend_channel brightness c1 b1 = Some r1"
      "uint r1 = \<lfloor>v1\<rfloor>"
      "\<bar>v1 - (brightness * float_of_Uint8 c1 + (1 - brightness) * float_of_Uint8 b1)\<bar> \<le> 1 / 16384"
    by blast
  from blend_channel_trunc[OF br, of c2 b2] obtain v2 r2 where
    t2: "blend_value brightness c2 b2 = Some v2" "blend_channel brightness c2 b2 = Some r2"
      "uint r2 = \<lfloor>v2\<rfloor>"
      "\<bar>v2 - (brightness * float_of_Uint8 c2 + (1 - brightness) * float_of_Uint8 b2)\<bar> \<le> 1 / 16384"
    by blast
  from blend_channel_trunc[OF br, of c3 b3] obtain v3 r3 where
    t3: "blend_value brightness c3 b3 = Some v3" "blend_channel brightness c3 b3 = Some r3"
      "uint r3 = \<lfloor>v3\<rfloor>"
      "\<bar>v3 - (brightness * float_of_Uint8 c3 + (1 - brightness) * float_of_Uint8 b3)\<bar> \<le> 1 / 16384"
    by blast
  have res: "get_antialiased_color surf x y original_color brightness blend
               = Some (MapRGBA (format surf) r0 r1 r2 r3)"
    unfolding get_antialiased_color_def c ld b using h
    by (simp add: t0(2) t1(2) t2(2) t3(2))
  have e0: "\<exists>v. blend_value brightness c0 b0 = Some v \<and> uint r0 = \<lfloor>v\<rfloor> \<and>
              \<bar>v - (brightness * float_of_Uint8 c0 + (1 - brightness) * float_of_Uint8 b0)\<bar> \<le> 1 / 16384"
    using t0 by blast
  have e1: "\<exists>v. blend_value brightness c1 b1 = Some v \<and> uint r1 = \<lfloor>v\<rfloor> \<and>
              \<bar>v - (brightness * float_of_Uint8 c1 + (1 - brightness) * float_of_Uint8 b1)\<bar> \<le> 1 / 16384"
    using t1 by blast
  have e2: "\<exists>v. blend_value brightness c2 b2 = Some v \<and> uint r2 = \<lfloor>v\<rfloor> \<and>
              \<bar>v - (brightness * float_of_Uint8 c2 + (1 - brightness) * float_of_Uint8 b2)\<bar> \<le> 1 / 16384"
    using t2 by blast
  have e3: "\<exists>v. blend_value brightness c3 b3 = Some v \<and> uint r3 = \<lfloor>v\<rfloor> \<and>
              \<bar>v - (brightness * float_of_Uint8 c3 + (1 - brightness) * float_of_Uint8 b3)\<bar> \<le> 1 / 16384"
    using t3 by blast
  show "case GetRGBA (format surf) original_color of (c0, c1, c2, c3) \<Rightarrow>
       case GetRGBA (format surf) dst of (b0, b1, b2, b3) \<Rightarrow>
         \<exists>r0 r1 r2 r3.
           get_antialiased_color surf x y original_color brightness blend
             = Some (MapRGBA (format surf) r0 r1 r2 r3) \<and>
           (\<exists>v. blend_value brightness c0 b0 = Some v \<and> uint r0 = \<lfloor>v\<rfloor> \<and>
              \<bar>v - (brightness * float_of_Uint8 c0 + (1 - brightness) * float_of_Uint8 b0)\<bar> \<le> 1 / 16384) \<and>
           (\<exists>v. blend_value brightness c1 b1 = Some v \<and> uint r1 = \<lfloor>v\<rfloor> \<and>
              \<bar>v - (brightness * float_of_Uint8 c1 + (1 - brightness) * float_of_Uint8 b1)\<bar> \<le> 1 / 16384) \<and>
           (\<exists>v. blend_value brightness c2 b2 = Some v \<and> uint r2 = \<lfloor>v\<rfloor> \<and>
              \<bar>v - (brightness * float_of_Uint8 c2 + (1 - brightness) * float_of_Uint8 b2)\<bar> \<le> 1 / 16384) \<and>
           (\<exists>v. blend_value brightness c3 b3 = Some v \<and> uint r3 = \<lfloor>v\<rfloor> \<and>
              \<bar>v - (brightness * float_of_Uint8 c3 + (1 - brightness) * float_of_Uint8 b3)\<bar> \<le> 1 / 16384)"
    unfolding c b prod.case
    by (rule exI[of _ r0], rule exI[of _ r1], rule exI[of _ r2], rule exI[of _ r3])
       (intro conjI res e0 e1 e2 e3)
next
  assume "blend \<noteq> 0 \<and> outside_clip surf x y"
  then show "get_antialiased_color surf x y original_color brightness blend = Some original_color"
    by (simp add: get_antialiased_color_def split: prod.splits)
qed

subsection \<open>Evaluations\<close>

lemma f32_round_0: "f32_round 0 = Some 0"
  by (rule f32_round_exact[of 0 0 0]) simp_all

lemma f32_round_half: "f32_round (1 / 2) = Some (1 / 2)"
  by (rule f32_round_exact[of 125 "1 / 2" 8388608]) simp_all

lemma f32_round_255_half: "f32_round (255 / 2) = Some (255 / 2)"
  by (rule f32_round_exact[of 132 "255 / 2" 16711680]) simp_all

lemma f32_round_255: "f32_round 255 = Some 255"
  by (rule f32_round_exact[of 133 255 16711680]) simp_all

lemma float_of_Uint8_values: "float_of_Uint8 0 = 0" "float_of_Uint8 255 = 255"
  by (simp_all add: float_of_Uint8_def)

lemma blend_value_half:
  "blend_value (1 / 2) 255 0 = Some (255 / 2)"
  "blend_value (1 / 2) 0 255 = Some (255 / 2)"
  "blend_value (1 / 2) 0 0 = Some 0"
  "blend_value (1 / 2) 255 255 = Some 255"
  by (simp_all add: blend_value_def f32_mul_def f32_sub_def f32_add_def float_of_Uint8_values
        f32_round_0 f32_round_half f32_round_255_half f32_round_255)

lemma floor_half_255: "\<lfloor>255 / 2 :: rat\<rfloor> = 127"
  by (rule floor_unique) simp_all

lemma blend_channel_half:
  "blend_channel (1 / 2) 255 0 = Some 127"
  "blend_channel (1 / 2) 0 255 = Some 127"
  "blend_channel (1 / 2) 0 0 = Some 0"
  "blend_channel (1 / 2) 255 255 = Some 255"
  by (simp_all add: blend_channel_def blend_value_half Uint8_of_float_def floor_half_255)

lemma rgba8888_white: "GetRGBA rgba8888 0xFFFFFFFF = (255, 255, 255, 255)"
  by (simp add: rgba8888_def)

lemma rgba8888_black: "GetRGBA rgba8888 0 = (0, 0, 0, 0)"
  by (simp add: rgba8888_def)

lemma blank_pixel_black: "pixel_holds (blank_surface 2 2) 0 0 0"
  by (simp add: pixel_holds_def blank_surface_def rgba8888_def load_Uint32_def)

text \<open>
  The claim C3 as stated (each channel is the rounding of the interpolation) fails for a
  white source at coverage one half over a black pixel: the interpolation is \<open>127.5\<close>,
  exact in binary32, which rounds to \<open>128\<close>, and the sampler returns the color of
  channels \<open>127\<close>.
\<close>

theorem antialiased_color_rounding_counterexample:
  "\<not> outside_clip (blank_surface 2 2) 0 0 \<and>
   pixel_holds (blank_surface 2 2) 0 0 0 \<and>
   GetRGBA rgba8888 0xFFFFFFFF = (255, 255, 255, 255) \<and>
   GetRGBA rgba8888 0 = (0, 0, 0, 0) \<and>
   blend_value (1 / 2) 255 0 = Some (255 / 2) \<and>
   get_antialiased_color (blank_surface 2 2) 0 0 0xFFFFFFFF (1 / 2) 1
     = Some (MapRGBA rgba8888 127 127 127 127) \<and>
   round (1 / 2 * 255 + (1 - 1 / 2) * 0 :: rat) = 128 \<and>
   MapRGBA rgba8888 127 127 127 127 \<noteq> MapRGBA rgba8888 128 128 128 128"
proof -
  have a: "\<not> outside_clip (blank_surface 2 2) 0 0"
    by (simp add: outside_clip_def blank_surface_def)
  have f: "format (blank_surface 2 2) = rgba8888" "lil_endian (blank_surface 2 2) = True"
    "surf_w (blank_surface 2 2) = 2"
    by (simp_all add: blank_surface_def)
  have ld: "load_Uint32 True (pixels (blank_surface 2 2)) (4 * (0 * 2 + 0)) = 0"
    by (simp add: blank_surface_def load_Uint32_def)
  have b: "get_antialiased_color (blank_surface 2 2) 0 0 0xFFFFFFFF (1 / 2) 1
     = Some (MapRGBA rgba8888 127 127 127 127)"
    unfolding get_antialiased_color_def f rgba8888_white ld rgba8888_black
    using a by (simp add: blend_channel_half)
  have c: "round (1 / 2 * 255 + (1 - 1 / 2) * 0 :: rat) = 128"
    by (simp add: round_def)
  have d: "MapRGBA rgba8888 127 127 127 127 \<noteq> MapRGBA rgba8888 128 128 128 128"
    by (simp add: rgba8888_def)
  show ?thesis
    by (intro conjI a blank_pixel_black rgba8888_white rgba8888_black blend_value_half(1) b c d)
qed

theorem antialiased_color_blend_witness:
  "get_antialiased_color (blank_surface 2 2) 0 0 0xFFFFFFFF (1 / 2) 1
     = Some (MapRGBA rgba8888 127 127 127 127) \<and>
   get_antialiased_color (blank_surface 2 2) 5 0 7 (1 / 2) 1 = Some 7"
proof -
  have f: "format (blank_surface 2 2) = rgba8888" "surf_w (blank_surface 2 2) = 2"
    "pitch (blank_surface 2 2) = 4 * 2"
    by (simp_all add: blank_surface_def)
  have i0: "\<not> outside_clip (blank_surface 2 2) 0 0" and o: "outside_clip (blank_surface 2 2) 5 0"
    by (simp_all add: outside_clip_def blank_surface_def)
  have b4: "BytesPerPixel (format (blank_surface 2 2)) = 4" by (simp add: f rgba8888_def)
  have one: "(1::int) \<noteq> 0" by simp
  have br: "(0::rat) \<le> 1 / 2" "(1 / 2 :: rat) \<le> 1" by simp_all
  note t0 = antialiased_color_blend[of 1 "blank_surface 2 2" 0 0 0 "1 / 2" "0xFFFFFFFF"]
  note t1 = antialiased_color_blend[of 1 "blank_surface 2 2" 5 0 0 "1 / 2" 7]
  have pre: "1 \<noteq> (0::int) \<and> \<not> outside_clip (blank_surface 2 2) 0 0 \<and>
    BytesPerPixel (format (blank_surface 2 2)) = 4 \<and>
    pitch (blank_surface 2 2) = 4 * surf_w (blank_surface 2 2) \<and>
    pixel_holds (blank_surface 2 2) 0 0 0 \<and> 0 \<le> (1 / 2 :: rat) \<and> (1 / 2 :: rat) \<le> 1"
    using i0 b4 blank_pixel_black by (simp add: f)
  from mp[OF conjunct1[OF t0] pre]
  obtain r0 r1 r2 r3 where
    r: "get_antialiased_color (blank_surface 2 2) 0 0 0xFFFFFFFF (1 / 2) 1
          = Some (MapRGBA rgba8888 r0 r1 r2 r3)"
    and u: "\<exists>v. blend_value (1 / 2) 255 0 = Some v \<and> uint r0 = \<lfloor>v\<rfloor>"
      "\<exists>v. blend_value (1 / 2) 255 0 = Some v \<and> uint r1 = \<lfloor>v\<rfloor>"
      "\<exists>v. blend_value (1 / 2) 255 0 = Some v \<and> uint r2 = \<lfloor>v\<rfloor>"
      "\<exists>v. blend_value (1 / 2) 255 0 = Some v \<and> uint r3 = \<lfloor>v\<rfloor>"
    unfolding f rgba8888_white rgba8888_black prod.case by blast
  have w: "\<And>r :: Uint8. \<exists>v. blend_value (1 / 2) 255 0 = Some v \<and> uint r = \<lfloor>v\<rfloor> \<Longrightarrow> r = 127"
  proof -
    fix r :: Uint8 assume "\<exists>v. blend_value (1 / 2) 255 0 = Some v \<and> uint r = \<lfloor>v\<rfloor>"
    then obtain v where v: "blend_value (1 / 2) 255 0 = Some v" "uint r = \<lfloor>v\<rfloor>" by blast
    have "v = 255 / 2" using v(1) unfolding blend_value_half(1) by simp
    then have "uint r = 127" using v(2) by (simp only: floor_half_255)
    then have "uint r = uint (127 :: Uint8)" by simp
    then show "r = 127" by (simp only: word_uint_eq_iff)
  qed
  have A: "get_antialiased_color (blank_surface 2 2) 0 0 0xFFFFFFFF (1 / 2) 1
     = Some (MapRGBA rgba8888 127 127 127 127)"
    using r w[OF u(1)] w[OF u(2)] w[OF u(3)] w[OF u(4)] by simp
  have B: "get_antialiased_color (blank_surface 2 2) 5 0 7 (1 / 2) 1 = Some 7"
    using mp[OF conjunct2[OF t1] conjI[OF one o]] .
  show ?thesis by (intro conjI A B)
qed

section \<open>The sampler reads outside the clip rectangle\<close>

text \<open>
  C1: the claim is right about the writes, and the sampler departs from it. \<^verbatim>\<open>set_at\<close>
  addresses the pixel \<open>(x, y)\<close> with the pitch and the pixel size of the surface;
  \<^verbatim>\<open>get_antialiased_color\<close> reads the four bytes at \<open>4 * (y * w + x)\<close> whatever these are.
  On the 8-bit surface \<open>clipped_gray_surface\<close> the location \<open>(1, 1)\<close> is inside the clip
  rectangle and its pixel is the byte 9; the sampler reads the bytes 36 to 39, the
  pixels \<open>(4, 4)\<close> to \<open>(7, 4)\<close>, all outside the clip rectangle: changing the byte 36
  changes the color it returns.
\<close>

theorem sampler_reads_outside_clip:
  "\<not> outside_clip clipped_gray_surface 1 1 \<and>
   pixel_bytes clipped_gray_surface 1 1 = {9} \<and>
   pixel_bytes clipped_gray_surface 4 4 = {36} \<and>
   outside_clip clipped_gray_surface 4 4 \<and>
   get_antialiased_color clipped_gray_surface 1 1 0 (1 / 2) 1 = Some 0 \<and>
   get_antialiased_color
     (clipped_gray_surface\<lparr>pixels := (pixels clipped_gray_surface)(36 := 255)\<rparr>) 1 1 0 (1 / 2) 1
     = Some 127"
proof -
  have a: "\<not> outside_clip clipped_gray_surface 1 1" "outside_clip clipped_gray_surface 4 4"
    by (simp_all add: outside_clip_def clipped_gray_surface_def)
  have b: "pixel_bytes clipped_gray_surface 1 1 = {9}" "pixel_bytes clipped_gray_surface 4 4 = {36}"
    by (auto simp add: pixel_bytes_def clipped_gray_surface_def gray8_def)
  have g: "GetRGBA gray8 0 = (0, 0, 0, 255)" "GetRGBA gray8 255 = (255, 255, 255, 255)"
    by (simp_all add: gray8_def)
  have l0: "load_Uint32 True (pixels clipped_gray_surface) (4 * (1 * 8 + 1)) = 0"
    by (simp add: clipped_gray_surface_def load_Uint32_def)
  have l1: "load_Uint32 True ((pixels clipped_gray_surface)(36 := 255)) (4 * (1 * 8 + 1)) = 255"
    by (simp add: clipped_gray_surface_def load_Uint32_def)
  have m: "MapRGBA gray8 0 0 0 255 = 0" "MapRGBA gray8 127 127 127 255 = 127"
    by (simp_all add: gray8_def)
  have c: "get_antialiased_color clipped_gray_surface 1 1 0 (1 / 2) 1 = Some 0"
    unfolding get_antialiased_color_def
    using a(1) l0 by (simp add: clipped_gray_surface_def g blend_channel_half m)
  have a': "\<not> outside_clip (clipped_gray_surface\<lparr>pixels := (pixels clipped_gray_surface)(36 := 255)\<rparr>) 1 1"
    by (simp add: outside_clip_def clipped_gray_surface_def)
  have d: "get_antialiased_color
     (clipped_gray_surface\<lparr>pixels := (pixels clipped_gray_surface)(36 := 255)\<rparr>) 1 1 0 (1 / 2) 1
     = Some 127"
    unfolding get_antialiased_color_def
    using a' l1 by (simp add: clipped_gray_surface_def g blend_channel_half m)
  show ?thesis by (intro conjI a b c d)
qed

section \<open>Entry points\<close>

lemma draw_line_total:
  assumes "line_fits x1 y1 x2 y2"
  shows "\<exists>ps. draw_line x1 y1 x2 y2 = Some ps \<and> (x1, y1) \<in> set ps \<and> (x2, y2) \<in> set ps"
proof -
  from draw_line_general_props draw_line_horizontal draw_line_vertical draw_line_point
  consider "x1 = x2 \<and> y1 = y2" | "y1 = y2 \<and> x1 \<noteq> x2" | "x1 = x2 \<and> y1 \<noteq> y2"
    | "x1 \<noteq> x2 \<and> y1 \<noteq> y2" by blast
  then have "\<exists>ps. draw_line x1 y1 x2 y2 = Some ps \<and> ps \<noteq> [] \<and> hd ps = (x1, y1) \<and> last ps = (x2, y2)"
  proof cases
    case 1
    then show ?thesis by (simp add: draw_line_point)
  next
    case 2
    then have d: "draw_line x1 y1 x2 y2 =
         Some (map (\<lambda>i. (x1 + sgn (x2 - x1) * int i, y1)) [0..<Suc (nat \<bar>x2 - x1\<bar>)])"
      using draw_line_horizontal assms by simp
    have l: "x1 + sgn (x2 - x1) * \<bar>x2 - x1\<bar> = x2" by (simp add: sgn_if)
    show ?thesis unfolding d using 2 l
      by (simp add: hd_map_upt comp_def last_map del: upt_Suc)
  next
    case 3
    then have d: "draw_line x1 y1 x2 y2 =
         Some (map (\<lambda>i. (x1, y1 + sgn (y2 - y1) * int i)) [0..<Suc (nat \<bar>y2 - y1\<bar>)])"
      using draw_line_vertical assms by simp
    have l: "y1 + sgn (y2 - y1) * \<bar>y2 - y1\<bar> = y2" by (simp add: sgn_if)
    show ?thesis unfolding d using 3 l
      by (simp add: hd_map_upt comp_def last_map del: upt_Suc)
  next
    case 4
    then show ?thesis using draw_line_general_props[of x1 x2 y1 y2] assms by blast
  qed
  then obtain ps where ps: "draw_line x1 y1 x2 y2 = Some ps" "ps \<noteq> []" "hd ps = (x1, y1)"
    "last ps = (x2, y2)" by blast
  have "hd ps \<in> set ps" "last ps \<in> set ps" using ps(2) by simp_all
  then show ?thesis using ps by auto
qed

text \<open>
  Arguments that \<^verbatim>\<open>draw_line_width\<close> handles without a wrap: a positive width of at most
  \<open>2 ^ 29\<close> and coordinates of at most \<open>2 ^ 29\<close> in absolute value.
\<close>

lemma thick_line_shift:
  assumes r: "\<bar>p0\<bar> \<le> 536870912" "\<bar>p1\<bar> \<le> 536870912" "\<bar>p2\<bar> \<le> 536870912" "\<bar>p3\<bar> \<le> 536870912"
    and k: "\<bar>a\<bar> \<le> 268435457" "\<bar>b\<bar> \<le> 268435457"
  shows "line_fits (p0 + a) (p1 + b) (p2 + a) (p3 + b)"
  using assms unfolding line_fits_def int_range_def INT_MIN_def INT_MAX_def
  by (intro conjI; linarith)

lemma draw_line_width_loop_total:
  assumes r: "\<bar>p0\<bar> \<le> 536870912" "\<bar>p1\<bar> \<le> 536870912" "\<bar>p2\<bar> \<le> 536870912" "\<bar>p3\<bar> \<le> 536870912"
    and w: "width \<le> 536870912" and inc: "xinc = 0 \<or> xinc = 1" "yinc = 0 \<or> yinc = 1"
    and l: "0 \<le> loop"
  shows "\<exists>ps. draw_line_width_loop width xinc yinc p0 p1 p2 p3 loop = Some ps"
  using l
proof (induction "nat (width - loop)" arbitrary: loop rule: less_induct)
  case less
  show ?case
  proof (cases "loop < width")
    case False
    then show ?thesis by (subst draw_line_width_loop.simps) simp
  next
    case True
    define k where "k = loop div 2 + 1"
    have kr: "0 \<le> k" "k \<le> 268435457" using less.prems True w by (simp_all add: k_def)
    have ir: "\<And>v :: int. \<bar>v\<bar> \<le> 1073741824 \<Longrightarrow> int_range v"
      unfolding int_range_def INT_MIN_def INT_MAX_def by (intro conjI; linarith)
    have ck: "c_add (c_div loop 2) 1 = k"
      using less.prems kr by (simp add: c_div_2_pos k_def c_add_id ir)
    have mx: "c_mul xinc k = xinc * k" "c_mul yinc k = yinc * k"
      using inc kr by (auto simp add: c_mul_id ir)
    have ab: "\<bar>xinc * k\<bar> \<le> 268435457" "\<bar>yinc * k\<bar> \<le> 268435457" "\<bar>- (xinc * k)\<bar> \<le> 268435457"
      "\<bar>- (yinc * k)\<bar> \<le> 268435457"
      using inc kr by auto
    have sums: "\<And>p i. \<bar>p\<bar> \<le> 536870912 \<Longrightarrow> i = 0 \<or> i = 1 \<Longrightarrow>
        c_add p (i * k) = p + i * k \<and> c_sub p (i * k) = p + - (i * k)"
    proof -
      fix p i :: int assume "\<bar>p\<bar> \<le> 536870912" "i = 0 \<or> i = 1"
      then have "\<bar>p + i * k\<bar> \<le> 1073741824" "\<bar>p - i * k\<bar> \<le> 1073741824" using kr by auto
      then show "c_add p (i * k) = p + i * k \<and> c_sub p (i * k) = p + - (i * k)"
        by (simp add: c_add_id c_sub_id ir)
    qed
    have l1: "c_add loop 1 = loop + 1" "c_add loop 2 = loop + 2"
      using less.prems True w by (simp_all add: c_add_id ir)
    obtain a where a: "draw_line (p0 + xinc * k) (p1 + yinc * k) (p2 + xinc * k) (p3 + yinc * k) = Some a"
      using draw_line_total[OF thick_line_shift[OF r ab(1,2)]] by blast
    obtain b' where b': "draw_line (p0 + - (xinc * k)) (p1 + - (yinc * k)) (p2 + - (xinc * k))
                          (p3 + - (yinc * k)) = Some b'"
      using draw_line_total[OF thick_line_shift[OF r ab(3,4)]] by blast
    obtain b where b: "(if loop + 1 < width then
                  draw_line (p0 + - (xinc * k)) (p1 + - (yinc * k)) (p2 + - (xinc * k))
                            (p3 + - (yinc * k))
                else Some []) = Some b"
      using b' by (cases "loop + 1 < width") simp_all
    have "nat (width - (loop + 2)) < nat (width - loop)" using True by simp
    then obtain t where t: "draw_line_width_loop width xinc yinc p0 p1 p2 p3 (loop + 2) = Some t"
      using less.hyps[of "loop + 2"] less.prems by auto
    have "draw_line_width_loop width xinc yinc p0 p1 p2 p3 loop = Some (a @ b @ t)"
      apply (subst draw_line_width_loop.simps)
      unfolding ck mx l1
      using sums[OF r(1) inc(1)] sums[OF r(2) inc(2)] sums[OF r(3) inc(1)] sums[OF r(4) inc(2)]
      by (simp only: True a b t if_True bind.bind_lunit)
    then show ?thesis by blast
  qed
qed

lemma draw_line_width_total:
  assumes r: "\<bar>p0\<bar> \<le> 536870912" "\<bar>p1\<bar> \<le> 536870912" "\<bar>p2\<bar> \<le> 536870912" "\<bar>p3\<bar> \<le> 536870912"
    and w: "width \<le> 536870912"
  shows "\<exists>ps. draw_line_width width p0 p1 p2 p3 = Some ps \<and> (p0, p1) \<in> set ps \<and> (p2, p3) \<in> set ps"
proof -
  have f: "line_fits p0 p1 p2 p3"
    using thick_line_shift[OF r, of 0 0] by simp
  obtain c where c: "draw_line p0 p1 p2 p3 = Some c" "(p0, p1) \<in> set c" "(p2, p3) \<in> set c"
    using draw_line_total[OF f] by blast
  define xinc :: int where "xinc = (if c_abs (c_sub p0 p2) > c_abs (c_sub p1 p3) then 0 else 1)"
  define yinc :: int where "yinc = (if c_abs (c_sub p0 p2) > c_abs (c_sub p1 p3) then 1 else 0)"
  have inc: "xinc = 0 \<or> xinc = 1" "yinc = 0 \<or> yinc = 1" by (simp_all add: xinc_def yinc_def)
  obtain m' where m': "draw_line_width_loop width xinc yinc p0 p1 p2 p3 1 = Some m'"
    using draw_line_width_loop_total[OF r w inc, of 1] by auto
  obtain m where m: "(if width \<noteq> 1 then draw_line_width_loop width xinc yinc p0 p1 p2 p3 1
                      else Some []) = Some m"
    using m' by (cases "width \<noteq> 1") simp_all
  have "draw_line_width width p0 p1 p2 p3 = Some (c @ m)"
    unfolding draw_line_width_def Let_def xinc_def[symmetric] yinc_def[symmetric]
    by (simp only: c(1) m bind.bind_lunit)
  then show ?thesis using c(2,3) by auto
qed

subsection \<open>Requests of one color\<close>

lemma written_with_color:
  "written surf (with_color color pts) = filter (\<lambda>(x, y). \<not> outside_clip surf x y) pts"
  by (induction pts) (auto simp add: written_def with_color_def)

lemma with_color_holds:
  assumes ok: "surface_ok surf" and p: "(x, y) \<in> set pts" and inc: "\<not> outside_clip surf x y"
  shows "pixel_holds (fst (set_at_seq (with_color color pts) (surf, da))) x y color"
proof -
  from split_list_last[OF p] obtain pre post where
    s: "pts = pre @ (x, y) # post" "(x, y) \<notin> set post" by blast
  have a: "with_color color pts = with_color color pre @ (x, y, color) # with_color color post"
    by (simp add: s(1) with_color_def)
  have b: "(x, y) \<notin> set (written surf (with_color color post))"
    using s(2) by (simp add: written_with_color)
  show ?thesis by (rule set_at_seq_holds[OF ok a inc b])
qed

lemma with_color_frame:
  assumes ok: "surface_ok surf"
    and b: "\<forall>p \<in> set pts. outside_clip surf (fst p) (snd p) \<or> b \<notin> pixel_bytes surf (fst p) (snd p)"
  shows "pixels (fst (set_at_seq (with_color color pts) (surf, da))) b = pixels surf b"
proof -
  have fo: "format_ok (format surf)" using ok by (simp add: surface_ok_def)
  have "\<forall>p \<in> set (written surf (with_color color pts)). b \<notin> pixel_bytes surf (fst p) (snd p)"
    using b by (auto simp add: written_with_color)
  then show ?thesis by (rule set_at_seq_written_frame[OF fo])
qed

text \<open>
  C8. Degenerate but valid inputs draw nothing. On a surface of a supported depth and
  with a valid color: \<^verbatim>\<open>circle\<close> with \<^verbatim>\<open>radius < 1\<close> or \<^verbatim>\<open>width < 0\<close> returns the zero-size
  rectangle at its center, and \<^verbatim>\<open>line\<close> with \<^verbatim>\<open>width < 1\<close> returns the zero-size rectangle
  at its start point; neither raises, and the surface returned is the surface given
  (the lock is not even taken).
\<close>

theorem degenerate_inputs_draw_nothing:
  assumes "0 < BytesPerPixel (format (surface surfobj))"
    and "BytesPerPixel (format (surface surfobj)) \<le> 4"
    and "colorobj \<noteq> NotAColor"
  shows "(radius < 1 \<or> cwidth < 0 \<longrightarrow>
            circle surfobj colorobj (Some (posx, posy)) (Some radius) cwidth
              top_right top_left bottom_left bottom_right
            = (Rect (posx, posy, 0, 0), surface surfobj)) \<and>
         (lwidth < 1 \<longrightarrow>
            line surfobj colorobj (Some (startx, starty)) (Some (endx, endy)) lwidth
            = Some (Rect (startx, starty, 0, 0), surface surfobj))"
proof -
  obtain color where c: "CHECK_LOAD_COLOR (format (surface surfobj)) colorobj = Some color"
    using assms(3) by (cases colorobj) (simp_all add: CHECK_LOAD_COLOR_def)
  have d: "\<not> (BytesPerPixel (format (surface surfobj)) \<le> 0 \<or> BytesPerPixel (format (surface surfobj)) > 4)"
    using assms(1,2) by simp
  show ?thesis
    by (simp add: circle_def line_def Let_def c d)
qed

theorem degenerate_inputs_draw_nothing_witness:
  "circle (lockable (blank_surface 4 4)) (PyInt 7) (Some (2, 2)) (Some 0) 0 0 0 0 0
     = (Rect (2, 2, 0, 0), blank_surface 4 4) \<and>
   circle (lockable (blank_surface 4 4)) (PyInt 7) (Some (2, 2)) (Some 3) (- 1) 0 0 0 0
     = (Rect (2, 2, 0, 0), blank_surface 4 4) \<and>
   line (lockable (blank_surface 4 4)) (PyInt 7) (Some (1, 2)) (Some (3, 3)) 0
     = Some (Rect (1, 2, 0, 0), blank_surface 4 4)"
proof -
  have a: "0 < BytesPerPixel (format (surface (lockable (blank_surface 4 4))))"
    and b: "BytesPerPixel (format (surface (lockable (blank_surface 4 4)))) \<le> 4"
    by (simp_all add: lockable_def blank_surface_def rgba8888_def)
  have c: "PyInt 7 \<noteq> NotAColor" by simp
  have s: "surface (lockable (blank_surface 4 4)) = blank_surface 4 4" by (simp add: lockable_def)
  show ?thesis
    using degenerate_inputs_draw_nothing[OF a b c, of 0 0 2 2 0 0 0 0 0 1 2 3 3]
          degenerate_inputs_draw_nothing[OF a b c, of 3 "- 1" 2 2 0 0 0 0 0 1 2 3 3]
    unfolding s by simp
qed

lemma lines_two_points:
  assumes w: "0 < width"
    and bpp: "0 < BytesPerPixel (format (surface surfobj))" "BytesPerPixel (format (surface surfobj)) \<le> 4"
    and col: "CHECK_LOAD_COLOR (format (surface surfobj)) colorobj = Some color"
    and lock: "lock_succeeds surfobj" "unlock_succeeds surfobj"
    and al: "fst (PyMem_New hp) \<noteq> None" "fst (PyMem_New (snd (PyMem_New hp))) \<noteq> None"
    and calls: "draw_line_width width x0 y0 x1 y1 = Some calls"
  shows "map_option (\<lambda>(r, s, h). (r, s))
           (lines surfobj colorobj (Some True) (Some [Some (x0, y0), Some (x1, y1)]) width hp)
         = Some (Rect (return_rect (snd (set_at_seq (with_color color calls)
                                       (surface surfobj, drawn_area_init))) x0 y0),
                 fst (set_at_seq (with_color color calls) (surface surfobj, drawn_area_init)))"
proof -
  obtain xl hp1 where n1: "PyMem_New hp = (Some xl, hp1)"
    using al(1) by (cases "PyMem_New hp") auto
  obtain yl hp2 where n2: "PyMem_New hp1 = (Some yl, hp2)"
    using al(2) n1 by (cases "PyMem_New hp1") auto
  have d: "\<not> (BytesPerPixel (format (surface surfobj)) \<le> 0 \<or> BytesPerPixel (format (surface surfobj)) > 4)"
    using bpp by simp
  have nw: "\<not> width < 1" using w by simp
  show ?thesis
    by (simp add: lines_def Let_def d col n1 n2 nw lock calls split: prod.splits)
qed


text \<open>
  C10. \<^verbatim>\<open>polygon\<close> checks its minimum of three points in filled mode only.
  \<^item> With a non-zero \<^verbatim>\<open>width\<close> (so with every \<^verbatim>\<open>width > 0\<close>) the call is the call of
    \<^verbatim>\<open>lines\<close> with \<^verbatim>\<open>closed = 1\<close>, whatever the other arguments are: nothing is checked
    before.
  \<^item> With exactly two points of coordinates at most \<open>2 ^ 29\<close> in absolute value and
    \<open>0 < width \<le> 2 ^ 29\<close> (a surface as SDL makes it, a valid color, lock and allocations
    succeeding) the call succeeds and draws a thick segment: \<^verbatim>\<open>draw_line_width\<close> returns
    its list of pixels, which has both points; the call returns the rectangle of that
    list; the surface it leaves differs from the one given in the pixel buffer only,
    every pixel of the list inside the clip rectangle holds the color in it, and no byte
    outside these pixels has changed.
  \<^item> The same list of two items with \<^verbatim>\<open>width = 0\<close> raises the \<^verbatim>\<open>ValueError\<close> for too few
    points and changes nothing.
\<close>

theorem polygon_point_count_only_when_filled:
  "(width \<noteq> 0 \<longrightarrow>
      polygon surfobj colorobj points width hp = lines surfobj colorobj (Some True) points width hp) \<and>
   (0 < width \<and> width \<le> 536870912 \<and>
    \<bar>x0\<bar> \<le> 536870912 \<and> \<bar>y0\<bar> \<le> 536870912 \<and> \<bar>x1\<bar> \<le> 536870912 \<and> \<bar>y1\<bar> \<le> 536870912 \<and>
    surface_ok (surface surfobj) \<and>
    CHECK_LOAD_COLOR (format (surface surfobj)) colorobj = Some color \<and>
    lock_succeeds surfobj \<and> unlock_succeeds surfobj \<and>
    fst (PyMem_New hp) \<noteq> None \<and> fst (PyMem_New (snd (PyMem_New hp))) \<noteq> None \<longrightarrow>
      (\<exists>calls surf'.
         draw_line_width width x0 y0 x1 y1 = Some calls \<and>
         (x0, y0) \<in> set calls \<and> (x1, y1) \<in> set calls \<and>
         map_option (\<lambda>(r, s, h). (r, s))
           (polygon surfobj colorobj (Some [Some (x0, y0), Some (x1, y1)]) width hp)
         = Some (Rect (return_rect (snd (set_at_seq (with_color color calls)
                                       (surface surfobj, drawn_area_init))) x0 y0), surf') \<and>
         same_geometry (surface surfobj) surf' \<and>
         (\<forall>p \<in> set calls. \<not> outside_clip (surface surfobj) (fst p) (snd p)
            \<longrightarrow> pixel_holds surf' (fst p) (snd p) color) \<and>
         (\<forall>b. (\<forall>p \<in> set calls. outside_clip (surface surfobj) (fst p) (snd p)
                    \<or> b \<notin> pixel_bytes (surface surfobj) (fst p) (snd p))
            \<longrightarrow> pixels surf' b = pixels (surface surfobj) b))) \<and>
   (0 < BytesPerPixel (format (surface surfobj)) \<and> BytesPerPixel (format (surface surfobj)) \<le> 4 \<and>
    CHECK_LOAD_COLOR (format (surface surfobj)) colorobj = Some color \<longrightarrow>
      polygon surfobj colorobj (Some [p0, p1]) 0 hp
      = Some (Raise (PyExc_ValueError ''points argument must contain more than 2 points''),
              surface surfobj, hp))"
proof (intro conjI impI)
  assume "width \<noteq> 0"
  then show "polygon surfobj colorobj points width hp = lines surfobj colorobj (Some True) points width hp"
    by (simp add: polygon_def)
next
  assume a: "0 < width \<and> width \<le> 536870912 \<and>
    \<bar>x0\<bar> \<le> 536870912 \<and> \<bar>y0\<bar> \<le> 536870912 \<and> \<bar>x1\<bar> \<le> 536870912 \<and> \<bar>y1\<bar> \<le> 536870912 \<and>
    surface_ok (surface surfobj) \<and>
    CHECK_LOAD_COLOR (format (surface surfobj)) colorobj = Some color \<and>
    lock_succeeds surfobj \<and> unlock_succeeds surfobj \<and>
    fst (PyMem_New hp) \<noteq> None \<and> fst (PyMem_New (snd (PyMem_New hp))) \<noteq> None"
  then have ok: "surface_ok (surface surfobj)" by simp
  have bpp: "0 < BytesPerPixel (format (surface surfobj))" "BytesPerPixel (format (surface surfobj)) \<le> 4"
    using ok by (auto simp add: surface_ok_def format_ok_def)
  obtain calls where c: "draw_line_width width x0 y0 x1 y1 = Some calls"
    "(x0, y0) \<in> set calls" "(x1, y1) \<in> set calls"
    using draw_line_width_total[of x0 y0 x1 y1 width] a by auto
  define surf' where "surf' = fst (set_at_seq (with_color color calls) (surface surfobj, drawn_area_init))"
  have p: "polygon surfobj colorobj (Some [Some (x0, y0), Some (x1, y1)]) width hp
             = lines surfobj colorobj (Some True) (Some [Some (x0, y0), Some (x1, y1)]) width hp"
    using a by (simp add: polygon_def)
  have r: "map_option (\<lambda>(r, s, h). (r, s))
           (polygon surfobj colorobj (Some [Some (x0, y0), Some (x1, y1)]) width hp)
         = Some (Rect (return_rect (snd (set_at_seq (with_color color calls)
                                       (surface surfobj, drawn_area_init))) x0 y0), surf')"
    unfolding p surf'_def using a c(1) bpp by (intro lines_two_points) simp_all
  have g: "same_geometry (surface surfobj) surf'"
    unfolding surf'_def by (rule set_at_seq_geometry)
  have h: "\<forall>p \<in> set calls. \<not> outside_clip (surface surfobj) (fst p) (snd p)
            \<longrightarrow> pixel_holds surf' (fst p) (snd p) color"
  proof (intro ballI impI)
    fix p assume "p \<in> set calls" "\<not> outside_clip (surface surfobj) (fst p) (snd p)"
    then show "pixel_holds surf' (fst p) (snd p) color"
      unfolding surf'_def using with_color_holds[OF ok, of "fst p" "snd p" calls color] by simp
  qed
  have f: "\<forall>b. (\<forall>p \<in> set calls. outside_clip (surface surfobj) (fst p) (snd p)
                    \<or> b \<notin> pixel_bytes (surface surfobj) (fst p) (snd p))
            \<longrightarrow> pixels surf' b = pixels (surface surfobj) b"
    unfolding surf'_def using with_color_frame[OF ok] by blast
  show "\<exists>calls surf'.
         draw_line_width width x0 y0 x1 y1 = Some calls \<and>
         (x0, y0) \<in> set calls \<and> (x1, y1) \<in> set calls \<and>
         map_option (\<lambda>(r, s, h). (r, s))
           (polygon surfobj colorobj (Some [Some (x0, y0), Some (x1, y1)]) width hp)
         = Some (Rect (return_rect (snd (set_at_seq (with_color color calls)
                                       (surface surfobj, drawn_area_init))) x0 y0), surf') \<and>
         same_geometry (surface surfobj) surf' \<and>
         (\<forall>p \<in> set calls. \<not> outside_clip (surface surfobj) (fst p) (snd p)
            \<longrightarrow> pixel_holds surf' (fst p) (snd p) color) \<and>
         (\<forall>b. (\<forall>p \<in> set calls. outside_clip (surface surfobj) (fst p) (snd p)
                    \<or> b \<notin> pixel_bytes (surface surfobj) (fst p) (snd p))
            \<longrightarrow> pixels surf' b = pixels (surface surfobj) b)"
    by (rule exI[of _ calls], rule exI[of _ surf']) (intro conjI c r g h f)
next
  assume a: "0 < BytesPerPixel (format (surface surfobj)) \<and> BytesPerPixel (format (surface surfobj)) \<le> 4 \<and>
    CHECK_LOAD_COLOR (format (surface surfobj)) colorobj = Some color"
  then have d: "\<not> (BytesPerPixel (format (surface surfobj)) \<le> 0 \<or> BytesPerPixel (format (surface surfobj)) > 4)"
    by simp
  show "polygon surfobj colorobj (Some [p0, p1]) 0 hp
      = Some (Raise (PyExc_ValueError ''points argument must contain more than 2 points''),
              surface surfobj, hp)"
    using a by (simp add: polygon_def Let_def d)
qed

theorem polygon_point_count_only_when_filled_witness:
  "polygon (lockable (blank_surface 4 4)) (PyInt 7) (Some [Some (0, 1), Some (3, 1)]) 2 (pymem_init [])
     = lines (lockable (blank_surface 4 4)) (PyInt 7) (Some True) (Some [Some (0, 1), Some (3, 1)]) 2
         (pymem_init []) \<and>
   draw_line_width 2 0 1 3 1
     = Some [(0, 1), (1, 1), (2, 1), (3, 1), (0, 2), (1, 2), (2, 2), (3, 2)] \<and>
   map_option fst
     (polygon (lockable (blank_surface 4 4)) (PyInt 7) (Some [Some (0, 1), Some (3, 1)]) 2 (pymem_init []))
     = Some (Rect (0, 1, 4, 2)) \<and>
   load_Uint32 True
     (pixels (fst (snd (the (polygon (lockable (blank_surface 4 4)) (PyInt 7)
                             (Some [Some (0, 1), Some (3, 1)]) 2 (pymem_init []))))))
     (2 * 16 + 4 * 3) = 7 \<and>
   pixels (fst (snd (the (polygon (lockable (blank_surface 4 4)) (PyInt 7)
                             (Some [Some (0, 1), Some (3, 1)]) 2 (pymem_init []))))) 0 = 0 \<and>
   polygon (lockable (blank_surface 4 4)) (PyInt 7) (Some [Some (0, 1), Some (3, 1)]) 0 (pymem_init [])
     = Some (Raise (PyExc_ValueError ''points argument must contain more than 2 points''),
             blank_surface 4 4, pymem_init [])"
proof -
  let ?L = "lockable (blank_surface 4 4)"
  let ?pts = "Some [Some (0, 1), Some (3, 1)] :: (int \<times> int) option list option"
  let ?res = "polygon ?L (PyInt 7) ?pts 2 (pymem_init [])"
  have s: "surface ?L = blank_surface 4 4" by (simp add: lockable_def)
  have sok: "surface_ok (surface ?L)"
    unfolding s by (rule blank_surface_ok) (simp_all add: INT_MAX_def)
  have h: "0 < BytesPerPixel (format (surface ?L))" "BytesPerPixel (format (surface ?L)) \<le> 4"
    "CHECK_LOAD_COLOR (format (surface ?L)) (PyInt 7) = Some 7"
    "lock_succeeds ?L" "unlock_succeeds ?L"
    "fst (PyMem_New (pymem_init [])) \<noteq> None"
    "fst (PyMem_New (snd (PyMem_New (pymem_init [])))) \<noteq> None"
    by (simp_all add: lockable_def blank_surface_def rgba8888_def CHECK_LOAD_COLOR_def
          PyMem_New_def pymem_init_def Let_def)
  note t = polygon_point_count_only_when_filled[of 2 ?L "PyInt 7" ?pts "pymem_init []" 0 1 3 1 7
              "Some (0, 1)" "Some (3, 1)"]
  have a: "?res = lines ?L (PyInt 7) (Some True) ?pts 2 (pymem_init [])"
    using t by simp
  have e: "draw_line_width 2 0 1 3 1
     = Some [(0, 1), (1, 1), (2, 1), (3, 1), (0, 2), (1, 2), (2, 2), (3, 2)]"
    by (simp add: draw_line_width_def draw_line_width_loop.simps draw_line_def
          draw_line_hloop.simps Let_def c_div_def c_int_ops)
  have pre: "(0::int) < 2 \<and> (2::int) \<le> 536870912 \<and>
    \<bar>0::int\<bar> \<le> 536870912 \<and> \<bar>1::int\<bar> \<le> 536870912 \<and> \<bar>3::int\<bar> \<le> 536870912 \<and> \<bar>1::int\<bar> \<le> 536870912 \<and>
    surface_ok (surface ?L) \<and>
    CHECK_LOAD_COLOR (format (surface ?L)) (PyInt 7) = Some 7 \<and>
    lock_succeeds ?L \<and> unlock_succeeds ?L \<and>
    fst (PyMem_New (pymem_init [])) \<noteq> None \<and>
    fst (PyMem_New (snd (PyMem_New (pymem_init [])))) \<noteq> None"
    using sok h by simp
  note t3 = mp[OF conjunct2[OF conjunct2[OF t]], OF conjI[OF h(1) conjI[OF h(2) h(3)]]]
  from mp[OF conjunct1[OF conjunct2[OF t]] pre]
  obtain calls surf' where c: "draw_line_width 2 0 1 3 1 = Some calls"
    and r: "map_option (\<lambda>(r, s, h). (r, s)) ?res
         = Some (Rect (return_rect (snd (set_at_seq (with_color 7 calls)
                                       (surface ?L, drawn_area_init))) 0 1), surf')"
    and g: "same_geometry (surface ?L) surf'"
    and ph: "\<forall>p \<in> set calls. \<not> outside_clip (surface ?L) (fst p) (snd p)
               \<longrightarrow> pixel_holds surf' (fst p) (snd p) 7"
    and fr: "\<forall>b. (\<forall>p \<in> set calls. outside_clip (surface ?L) (fst p) (snd p)
                    \<or> b \<notin> pixel_bytes (surface ?L) (fst p) (snd p))
               \<longrightarrow> pixels surf' b = pixels (surface ?L) b"
    by blast
  have cs: "calls = [(0, 1), (1, 1), (2, 1), (3, 1), (0, 2), (1, 2), (2, 2), (3, 2)]"
    using c e by simp
  have rr: "return_rect (snd (set_at_seq (with_color 7 calls) (surface ?L, drawn_area_init))) 0 1
             = (0, 1, 4, 2)"
    unfolding cs s set_at_seq_drawn_area
    by (simp add: written_def with_color_def outside_clip_def blank_surface_def
          drawn_area_init_def add_pixel_to_drawn_list_def return_rect_def INT_MAX_def INT_MIN_def)
  obtain rv sv hv where res: "?res = Some (rv, sv, hv)"
    using r by (cases ?res) auto
  have rv: "rv = Rect (0, 1, 4, 2)" and sv: "sv = surf'"
    using r unfolding res rr by simp_all
  have b: "map_option fst ?res = Some (Rect (0, 1, 4, 2))"
    unfolding res rv by simp
  have the: "fst (snd (the ?res)) = surf'" unfolding res sv by simp
  have sel: "format surf' = rgba8888" "pitch surf' = 16" "lil_endian surf' = True"
    using same_geometry_sel[OF g] unfolding s by (simp_all add: blank_surface_def)
  have "(3, 2) \<in> set calls" "\<not> outside_clip (surface ?L) 3 2"
    unfolding cs s by (simp_all add: outside_clip_def blank_surface_def)
  then have "pixel_holds surf' 3 2 7" using ph by force
  then have L: "load_Uint32 True (pixels surf') (2 * 16 + 4 * 3) = 7"
    unfolding pixel_holds_def Let_def sel by (simp add: rgba8888_def)
  have "\<forall>p \<in> set calls. outside_clip (surface ?L) (fst p) (snd p)
                    \<or> 0 \<notin> pixel_bytes (surface ?L) (fst p) (snd p)"
    unfolding cs s by (simp add: pixel_bytes_def blank_surface_def rgba8888_def)
  then have "pixels surf' 0 = pixels (surface ?L) 0" using fr by blast
  then have Z: "pixels surf' 0 = 0" unfolding s by (simp add: blank_surface_def)
  have d: "polygon ?L (PyInt 7) ?pts 0 (pymem_init [])
     = Some (Raise (PyExc_ValueError ''points argument must contain more than 2 points''),
             blank_surface 4 4, pymem_init [])"
    using t3 unfolding s .
  show ?thesis unfolding the by (intro conjI a e b L Z d)
qed

text \<open>
  The claim C10 as stated, for every list of two points, fails at the end of the range
  of \<^verbatim>\<open>int\<close>: with the points \<open>(INT_MIN, 0)\<close> and \<open>(0, 0)\<close> and width 1 the call succeeds
  and draws nothing, although \<open>(0, 0)\<close> is a pixel of the surface; it returns the
  zero-size rectangle and the surface as it was.
\<close>

theorem polygon_far_points_counterexample:
  "\<not> outside_clip (blank_surface 4 4) 0 0 \<and>
   polygon (lockable (blank_surface 4 4)) (PyInt 7)
     (Some [Some (- 2147483648, 0), Some (0, 0)]) 1 (pymem_init [])
   = Some (Rect (- 2147483648, 0, 0, 0), blank_surface 4 4,
           \<lparr>alloc_ok = [], live = [], fresh = 2\<rparr>)"
proof -
  have i: "\<not> outside_clip (blank_surface 4 4) 0 0"
    by (simp add: outside_clip_def blank_surface_def)
  have d: "draw_line_width 1 (- 2147483648) 0 0 0 = Some []"
    by (simp add: draw_line_width_1 draw_line_def draw_line_hloop.simps Let_def c_int_ops)
  have p: "polygon (lockable (blank_surface 4 4)) (PyInt 7)
     (Some [Some (- 2147483648, 0), Some (0, 0)]) 1 (pymem_init [])
   = Some (Rect (- 2147483648, 0, 0, 0), blank_surface 4 4,
           \<lparr>alloc_ok = [], live = [], fresh = 2\<rparr>)"
    by (simp add: polygon_def lines_def lockable_def CHECK_LOAD_COLOR_def
          PyMem_New_def PyMem_Del_def pymem_init_def Let_def d set_at_seq_Nil with_color_def
          return_rect_def drawn_area_init_def blank_surface_def rgba8888_def)
  show ?thesis by (intro conjI i p)
qed

text \<open>
  C9 does not hold for the code. \<^verbatim>\<open>lines\<close> allocates \<^verbatim>\<open>xlist\<close> and \<^verbatim>\<open>ylist\<close> and raises
  \<^verbatim>\<open>MemoryError\<close> when either is \<^verbatim>\<open>NULL\<close>, without freeing the other. When the first
  allocation succeeds and the second one fails, block 0 is still allocated after the
  call has returned.
\<close>

theorem lines_leaks_xlist_when_ylist_allocation_fails:
  "lines (lockable (blank_surface 4 4)) (PyInt 7) (Some False) (Some [Some (0, 0), Some (1, 1)]) 1
     (pymem_init [True, False])
   = Some (Raise (PyExc_MemoryError ''cannot allocate memory to draw lines''), blank_surface 4 4,
           \<lparr>alloc_ok = [], live = [0], fresh = 1\<rparr>)"
  by (simp add: lines_def lockable_def blank_surface_def rgba8888_def CHECK_LOAD_COLOR_def
        PyMem_New_def pymem_init_def Let_def)

section \<open>Ellipse\<close>

lemma ellipse_raster_4x4_ry1: "draw_ellipse_raster 0 0 1 1 2 1 0 = Some [(0, - 2), (- 1, - 2), (0, 1), (- 1, 1), (- 2, 0), (1, 0), (- 2, - 1), (1, - 1), (- 1, - 1), (0, - 1), (- 1, 0), (0, 0), (- 1, 0), (0, 0), (- 1, - 1), (0, - 1)]"
  by (simp add: draw_ellipse_raster_def draw_ellipse_wide.simps c_div_def Let_def)

lemma ellipse_raster_4x4_ry2: "draw_ellipse_raster 0 0 1 1 2 2 0 = Some [(0, - 3), (- 1, - 3), (0, 2), (- 1, 2), (- 2, 0), (1, 0), (- 2, - 1), (1, - 1), (- 1, - 2), (0, - 2), (- 1, 1), (0, 1), (- 1, 1), (0, 1), (- 1, - 2), (0, - 2)]"
  by (simp add: draw_ellipse_raster_def draw_ellipse_wide.simps c_div_def Let_def)

text \<open>
  C7, amended. In the non-degenerate path (\<open>rx > 0\<close> and \<open>ry > 0\<close>, with \<open>rx = width >> 1\<close>,
  \<open>ry = height >> 1\<close> and \<open>yoff = 1 - (height & 1)\<close>) \<^verbatim>\<open>draw_ellipse\<close> rasterizes with the
  half-height \<open>ry + (solid & 1) - yoff\<close>: solid mode adds \<open>1 - yoff\<close>, and outline mode
  subtracts \<open>yoff\<close>, so that it keeps \<open>ry\<close> for an odd height and takes \<open>ry - 1\<close> for an
  even one. \<open>yoff\<close> is 1 for an even height and 0 for an odd one.
\<close>

theorem ellipse_ry_adjustment:
  assumes "0 < drop_bit 1 width" and "0 < drop_bit 1 height"
  shows "draw_ellipse x y width height 1 =
           draw_ellipse_raster x y ((width AND 1) XOR 1) ((height AND 1) XOR 1) (drop_bit 1 width)
             (drop_bit 1 height + (1 - ((height AND 1) XOR 1))) 1 \<and>
         draw_ellipse x y width height 0 =
           draw_ellipse_raster x y ((width AND 1) XOR 1) ((height AND 1) XOR 1) (drop_bit 1 width)
             (drop_bit 1 height - ((height AND 1) XOR 1)) 0 \<and>
         (height AND 1) XOR 1 = (if even height then 1 else 0)"
proof -
  have p: "(height AND 1) XOR 1 = (if even height then 1 else 0)"
    by (cases "even height") (simp_all add: and_one_eq mod_2_eq_odd)
  show ?thesis using assms p
    by (simp add: draw_ellipse_def Let_def)
qed


lemma bits_of_4: "((4::int) AND 1) XOR 1 = 1" "drop_bit 1 (4::int) = 2"
  by (simp_all add: and_one_eq drop_bit_eq_div)

theorem ellipse_ry_adjustment_witness:
  "0 < drop_bit 1 (4::int) \<and>
   draw_ellipse 0 0 4 4 1 = draw_ellipse_raster 0 0 1 1 2 2 1 \<and>
   draw_ellipse 0 0 4 4 0 = draw_ellipse_raster 0 0 1 1 2 1 0"
proof -
  have h: "0 < drop_bit 1 (4::int)" by (simp add: bits_of_4)
  show ?thesis
    using h ellipse_ry_adjustment[OF h h, of 0 0] unfolding bits_of_4 by simp
qed

text \<open>
  The claim C7 as stated (outline mode rasterizes with \<open>ry\<close> unchanged) fails for a 4 by 4
  outline: the calls of \<^verbatim>\<open>draw_ellipse\<close> are not those of the rasterization with \<open>ry = 2\<close>.
\<close>

theorem ellipse_outline_ry_counterexample:
  "0 < drop_bit 1 (4::int) \<and>
   draw_ellipse 0 0 4 4 0
     \<noteq> draw_ellipse_raster 0 0 ((4 AND 1) XOR 1) ((4 AND 1) XOR 1) (drop_bit 1 4) (drop_bit 1 4) 0"
proof -
  have h: "0 < drop_bit 1 (4::int)" by (simp add: bits_of_4)
  have a: "draw_ellipse 0 0 4 4 0 = draw_ellipse_raster 0 0 1 1 2 1 0"
    unfolding draw_ellipse_def Let_def bits_of_4 by simp
  have "draw_ellipse_raster 0 0 1 1 2 1 0 \<noteq> draw_ellipse_raster 0 0 1 1 2 2 0"
    unfolding ellipse_raster_4x4_ry1 ellipse_raster_4x4_ry2 by simp
  then show ?thesis using h a unfolding bits_of_4 by simp
qed

end
